theory Spec2Isabelle
  imports Main "HOL-Library.Word"
begin

section \<open>The operation taxonomy (syntax/operation.go)\<close>

text \<open>
  \<^verbatim>\<open>type Operation byte\<close>: a tag is any byte. The constants are those of the
  \<^verbatim>\<open>const ( OpNone Operation = iota ... OpNone2 )\<close> block of operation.go, numbered
  from zero in declaration order. (ast.go carries a copy of the block that lacks
  \<^verbatim>\<open>OpPossessive\<close>; the block of operation.go is the one modelled.)
\<close>

type_synonym Operation = "8 word"

definition OpNone :: Operation where "OpNone = 0"
definition OpConcat :: Operation where "OpConcat = 1"
definition OpDot :: Operation where "OpDot = 2"
definition OpAlt :: Operation where "OpAlt = 3"
definition OpStar :: Operation where "OpStar = 4"
definition OpPlus :: Operation where "OpPlus = 5"
definition OpQuestion :: Operation where "OpQuestion = 6"
definition OpNonGreedy :: Operation where "OpNonGreedy = 7"
definition OpPossessive :: Operation where "OpPossessive = 8"
definition OpCaret :: Operation where "OpCaret = 9"
definition OpDollar :: Operation where "OpDollar = 10"
definition OpLiteral :: Operation where "OpLiteral = 11"
definition OpChar :: Operation where "OpChar = 12"
definition OpString :: Operation where "OpString = 13"
definition OpQuote :: Operation where "OpQuote = 14"
definition OpEscape :: Operation where "OpEscape = 15"
definition OpEscapeMeta :: Operation where "OpEscapeMeta = 16"
definition OpEscapeOctal :: Operation where "OpEscapeOctal = 17"
definition OpEscapeHex :: Operation where "OpEscapeHex = 18"
definition OpEscapeHexFull :: Operation where "OpEscapeHexFull = 19"
definition OpEscapeUni :: Operation where "OpEscapeUni = 20"
definition OpEscapeUniFull :: Operation where "OpEscapeUniFull = 21"
definition OpCharClass :: Operation where "OpCharClass = 22"
definition OpNegCharClass :: Operation where "OpNegCharClass = 23"
definition OpCharRange :: Operation where "OpCharRange = 24"
definition OpPosixClass :: Operation where "OpPosixClass = 25"
definition OpRepeat :: Operation where "OpRepeat = 26"
definition OpCapture :: Operation where "OpCapture = 27"
definition OpNamedCapture :: Operation where "OpNamedCapture = 28"
definition OpGroup :: Operation where "OpGroup = 29"
definition OpGroupWithFlags :: Operation where "OpGroupWithFlags = 30"
definition OpFlagOnlyGroup :: Operation where "OpFlagOnlyGroup = 31"
definition OpNone2 :: Operation where "OpNone2 = 32"

lemmas Op_defs =
  OpNone_def OpConcat_def OpDot_def OpAlt_def OpStar_def OpPlus_def OpQuestion_def
  OpNonGreedy_def OpPossessive_def OpCaret_def OpDollar_def OpLiteral_def OpChar_def
  OpString_def OpQuote_def OpEscape_def OpEscapeMeta_def OpEscapeOctal_def OpEscapeHex_def
  OpEscapeHexFull_def OpEscapeUni_def OpEscapeUniFull_def OpCharClass_def
  OpNegCharClass_def OpCharRange_def OpPosixClass_def OpRepeat_def OpCapture_def
  OpNamedCapture_def OpGroup_def OpGroupWithFlags_def OpFlagOnlyGroup_def OpNone2_def

section \<open>The AST model (syntax/ast.go)\<close>

text \<open>
  \<^verbatim>\<open>Position\<close> is used by ast.go through its two \<^verbatim>\<open>uint16\<close> fields only
  (\<^verbatim>\<open>e.Pos.Begin\<close>, \<^verbatim>\<open>e.Pos.End\<close>). A Go string is a sequence of bytes, here a
  list of 8-bit characters.
\<close>

record Position =
  Begin :: "16 word"
  End :: "16 word"

datatype Expr = MkExpr (Pos: Position) (Op: Operation) (Args: "Expr list")

record Regexp =
  Source :: string
  Expr :: Expr

text \<open>Run-time panics of the Go code are values.\<close>

datatype panic = IndexOutOfRange | SliceBoundsOutOfRange

definition ExprBegin :: "Expr \<Rightarrow> 16 word" where
  "ExprBegin e = Begin (Pos e)"

definition ExprEnd :: "Expr \<Rightarrow> 16 word" where
  "ExprEnd e = End (Pos e)"

text \<open>\<^verbatim>\<open>s[b:e]\<close> on a string panics unless \<open>b \<le> e \<le> len(s)\<close>.\<close>

definition slice :: "string \<Rightarrow> nat \<Rightarrow> nat \<Rightarrow> panic + string" where
  "slice s b e =
     (if b \<le> e \<and> e \<le> length s then Inr (take (e - b) (drop b s))
      else Inl SliceBoundsOutOfRange)"

definition ExprString :: "Regexp \<Rightarrow> Expr \<Rightarrow> panic + string" where
  "ExprString re e = slice (Source re) (unat (ExprBegin e)) (unat (ExprEnd e))"

text \<open>\<^verbatim>\<open>xs[i]\<close> with an \<^verbatim>\<open>int\<close> index panics unless \<open>0 \<le> i < len(xs)\<close>.\<close>

definition index :: "'a list \<Rightarrow> int \<Rightarrow> panic + 'a" where
  "index xs i =
     (if 0 \<le> i \<and> i < int (length xs) then Inr (xs ! nat i) else Inl IndexOutOfRange)"

definition LastArg :: "Expr \<Rightarrow> panic + Expr" where
  "LastArg e = index (Args e) (int (length (Args e)) - 1)"

subsection \<open>Library functions the formatter calls\<close>

text \<open>\<^verbatim>\<open>strings.Join(elems, sep)\<close>.\<close>

fun Join :: "string list \<Rightarrow> string \<Rightarrow> string" where
  "Join [] sep = []"
| "Join [x] sep = x"
| "Join (x # y # ys) sep = x @ sep @ Join (y # ys) sep"

text \<open>The verb \<^verbatim>\<open>%d\<close> on a byte: its value in decimal, no padding.\<close>

definition digit :: "nat \<Rightarrow> char" where
  "digit d = ''0123456789'' ! d"

fun decimal :: "nat \<Rightarrow> string" where
  "decimal n = (if n < 10 then [digit n] else decimal (n div 10) @ [digit (n mod 10)])"

declare decimal.simps [simp del]

subsection \<open>The formatter\<close>

lemma index_size:
  "index xs i = Inr (a :: Expr) \<Longrightarrow> size a < Suc (size_list size xs)"
proof -
  assume "index xs i = Inr a"
  then have "a \<in> set xs"
    by (auto simp: index_def split: if_splits)
  then show ?thesis
    by (induction xs) auto
qed

text \<open>
  \<^verbatim>\<open>formatExprSyntax\<close> is the \<^verbatim>\<open>switch e.Op\<close> of ast.go, case by case in the
  source's order; the arguments of each \<^verbatim>\<open>fmt.Sprintf\<close> are evaluated left to right,
  and a panic in one of them is the result. \<^verbatim>\<open>formatParts\<close> is the loop of
  \<^verbatim>\<open>formatArgsSyntax\<close> that fills \<^verbatim>\<open>parts\<close>.
\<close>

function formatExprSyntax :: "Regexp \<Rightarrow> Expr \<Rightarrow> panic + string"
  and formatParts :: "Regexp \<Rightarrow> Expr list \<Rightarrow> panic + string list"
  and formatArgsSyntax :: "Regexp \<Rightarrow> Expr list \<Rightarrow> panic + string"
where
  "formatExprSyntax re e =
     (if Op e = OpChar \<or> Op e = OpLiteral then
        (case ExprString re e of Inl p \<Rightarrow> Inl p
         | Inr s \<Rightarrow>
             if s = ''{'' then Inr [CHR 0x27, CHR ''{'', CHR 0x27]
             else if s = ''}'' then Inr [CHR 0x27, CHR ''}'', CHR 0x27]
             else Inr s)
      else if Op e = OpString \<or> Op e = OpEscape \<or> Op e = OpEscapeMeta
           \<or> Op e = OpEscapeOctal \<or> Op e = OpEscapeUni \<or> Op e = OpEscapeUniFull
           \<or> Op e = OpEscapeHex \<or> Op e = OpEscapeHexFull \<or> Op e = OpPosixClass then
        ExprString re e
      else if Op e = OpRepeat then
        (case index (Args e) 0 of Inl p \<Rightarrow> Inl p
         | Inr a0 \<Rightarrow>
        (case formatExprSyntax re a0 of Inl p \<Rightarrow> Inl p
         | Inr s0 \<Rightarrow>
        (case index (Args e) 1 of Inl p \<Rightarrow> Inl p
         | Inr a1 \<Rightarrow>
        (case ExprString re a1 of Inl p \<Rightarrow> Inl p
         | Inr s1 \<Rightarrow> Inr (''(repeat '' @ s0 @ '' '' @ s1 @ '')'')))))
      else if Op e = OpCaret then Inr ''^''
      else if Op e = OpDollar then Inr ''$''
      else if Op e = OpDot then Inr ''.''
      else if Op e = OpQuote then
        (case ExprString re e of Inl p \<Rightarrow> Inl p
         | Inr s \<Rightarrow> Inr (''(q '' @ s @ '')''))
      else if Op e = OpCharRange then
        (case index (Args e) 0 of Inl p \<Rightarrow> Inl p
         | Inr a0 \<Rightarrow>
        (case formatExprSyntax re a0 of Inl p \<Rightarrow> Inl p
         | Inr s0 \<Rightarrow>
        (case index (Args e) 1 of Inl p \<Rightarrow> Inl p
         | Inr a1 \<Rightarrow>
        (case formatExprSyntax re a1 of Inl p \<Rightarrow> Inl p
         | Inr s1 \<Rightarrow> Inr (s0 @ ''-'' @ s1)))))
      else if Op e = OpCharClass then
        (case formatArgsSyntax re (Args e) of Inl p \<Rightarrow> Inl p
         | Inr s \<Rightarrow> Inr (''['' @ s @ '']''))
      else if Op e = OpNegCharClass then
        (case formatArgsSyntax re (Args e) of Inl p \<Rightarrow> Inl p
         | Inr s \<Rightarrow> Inr (''[^'' @ s @ '']''))
      else if Op e = OpConcat then
        (case formatArgsSyntax re (Args e) of Inl p \<Rightarrow> Inl p
         | Inr s \<Rightarrow> Inr (''{'' @ s @ ''}''))
      else if Op e = OpAlt then
        (case formatArgsSyntax re (Args e) of Inl p \<Rightarrow> Inl p
         | Inr s \<Rightarrow> Inr (''(or '' @ s @ '')''))
      else if Op e = OpCapture then
        (case index (Args e) 0 of Inl p \<Rightarrow> Inl p
         | Inr a0 \<Rightarrow>
        (case formatExprSyntax re a0 of Inl p \<Rightarrow> Inl p
         | Inr s0 \<Rightarrow> Inr (''(capture '' @ s0 @ '')'')))
      else if Op e = OpNamedCapture then
        (case index (Args e) 0 of Inl p \<Rightarrow> Inl p
         | Inr a0 \<Rightarrow>
        (case formatExprSyntax re a0 of Inl p \<Rightarrow> Inl p
         | Inr s0 \<Rightarrow>
        (case index (Args e) 1 of Inl p \<Rightarrow> Inl p
         | Inr a1 \<Rightarrow>
        (case ExprString re a1 of Inl p \<Rightarrow> Inl p
         | Inr s1 \<Rightarrow> Inr (''(capture '' @ s0 @ '' '' @ s1 @ '')'')))))
      else if Op e = OpGroup then
        (case index (Args e) 0 of Inl p \<Rightarrow> Inl p
         | Inr a0 \<Rightarrow>
        (case formatExprSyntax re a0 of Inl p \<Rightarrow> Inl p
         | Inr s0 \<Rightarrow> Inr (''(group '' @ s0 @ '')'')))
      else if Op e = OpGroupWithFlags then
        (case index (Args e) 0 of Inl p \<Rightarrow> Inl p
         | Inr a0 \<Rightarrow>
        (case formatExprSyntax re a0 of Inl p \<Rightarrow> Inl p
         | Inr s0 \<Rightarrow>
        (case index (Args e) 1 of Inl p \<Rightarrow> Inl p
         | Inr a1 \<Rightarrow>
        (case ExprString re a1 of Inl p \<Rightarrow> Inl p
         | Inr s1 \<Rightarrow> Inr (''(group '' @ s0 @ '' '' @ s1 @ '')'')))))
      else if Op e = OpFlagOnlyGroup then
        (case index (Args e) 0 of Inl p \<Rightarrow> Inl p
         | Inr a0 \<Rightarrow>
        (case formatExprSyntax re a0 of Inl p \<Rightarrow> Inl p
         | Inr s0 \<Rightarrow> Inr (''(flags '' @ s0 @ '')'')))
      else if Op e = OpPlus then
        (case index (Args e) 0 of Inl p \<Rightarrow> Inl p
         | Inr a0 \<Rightarrow>
        (case formatExprSyntax re a0 of Inl p \<Rightarrow> Inl p
         | Inr s0 \<Rightarrow> Inr (''(+ '' @ s0 @ '')'')))
      else if Op e = OpStar then
        (case index (Args e) 0 of Inl p \<Rightarrow> Inl p
         | Inr a0 \<Rightarrow>
        (case formatExprSyntax re a0 of Inl p \<Rightarrow> Inl p
         | Inr s0 \<Rightarrow> Inr (''(* '' @ s0 @ '')'')))
      else if Op e = OpQuestion then
        (case index (Args e) 0 of Inl p \<Rightarrow> Inl p
         | Inr a0 \<Rightarrow>
        (case formatExprSyntax re a0 of Inl p \<Rightarrow> Inl p
         | Inr s0 \<Rightarrow> Inr (''(? '' @ s0 @ '')'')))
      else if Op e = OpNonGreedy then
        (case index (Args e) 0 of Inl p \<Rightarrow> Inl p
         | Inr a0 \<Rightarrow>
        (case formatExprSyntax re a0 of Inl p \<Rightarrow> Inl p
         | Inr s0 \<Rightarrow> Inr (''(non-greedy '' @ s0 @ '')'')))
      else Inr (''<op='' @ decimal (unat (Op e)) @ ''>''))"
| "formatParts re [] = Inr []"
| "formatParts re (e # es) =
     (case formatExprSyntax re e of Inl p \<Rightarrow> Inl p
      | Inr s \<Rightarrow>
     (case formatParts re es of Inl p \<Rightarrow> Inl p
      | Inr ss \<Rightarrow> Inr (s # ss)))"
| "formatArgsSyntax re args =
     (case formatParts re args of Inl p \<Rightarrow> Inl p
      | Inr parts \<Rightarrow> Inr (Join parts '' ''))"
  by pat_completeness auto

termination
proof (relation "measure (\<lambda>x. case x of
          Inl (re, e) \<Rightarrow> 3 * size e
        | Inr (Inl (re, es)) \<Rightarrow> 3 * size_list size es + 1
        | Inr (Inr (re, es)) \<Rightarrow> 3 * size_list size es + 2)", goal_cases)
  case 1
  show ?case by simp
next
  case (2 re e a0)
  then show ?case using index_size [of "Args e" 0 a0] by (cases e) simp
qed (auto dest!: index_size, (case_tac e, simp)+)

declare formatExprSyntax.simps [simp del]
declare formatArgsSyntax.simps [simp del]

definition FormatSyntax :: "Regexp \<Rightarrow> panic + string" where
  "FormatSyntax re = formatExprSyntax re (Expr re)"


section \<open>The rendering rule of each case\<close>

text \<open>The case labels of the \<^verbatim>\<open>switch\<close>, and those of its verbatim-text case.\<close>

definition verbatimOps :: "Operation set" where
  "verbatimOps = {OpString, OpEscape, OpEscapeMeta, OpEscapeOctal, OpEscapeUni,
     OpEscapeUniFull, OpEscapeHex, OpEscapeHexFull, OpPosixClass}"

definition handledOps :: "Operation set" where
  "handledOps = {OpChar, OpLiteral, OpString, OpEscape, OpEscapeMeta, OpEscapeOctal,
     OpEscapeUni, OpEscapeUniFull, OpEscapeHex, OpEscapeHexFull, OpPosixClass, OpRepeat,
     OpCaret, OpDollar, OpDot, OpQuote, OpCharRange, OpCharClass, OpNegCharClass, OpConcat,
     OpAlt, OpCapture, OpNamedCapture, OpGroup, OpGroupWithFlags, OpFlagOnlyGroup, OpPlus,
     OpStar, OpQuestion, OpNonGreedy}"

text \<open>The text a node spans, \<^verbatim>\<open>Source[Begin:End]\<close>, and when the slice is in range.\<close>

definition span_ok :: "Regexp \<Rightarrow> Expr \<Rightarrow> bool" where
  "span_ok re e \<longleftrightarrow>
     unat (ExprBegin e) \<le> unat (ExprEnd e) \<and> unat (ExprEnd e) \<le> length (Source re)"

definition span_text :: "Regexp \<Rightarrow> Expr \<Rightarrow> string" where
  "span_text re e =
     take (unat (ExprEnd e) - unat (ExprBegin e)) (drop (unat (ExprBegin e)) (Source re))"

text \<open>
  The least number of arguments each case of the formatter indexes (\<^verbatim>\<open>e.Args[0]\<close>,
  \<^verbatim>\<open>e.Args[1]\<close>), and the trees all of whose nodes have that many; the trees all of
  whose nodes have a span inside the source text.
\<close>

definition min_arity :: "Operation \<Rightarrow> nat" where
  "min_arity op =
     (if op \<in> {OpRepeat, OpCharRange, OpNamedCapture, OpGroupWithFlags} then 2
      else if op \<in> {OpStar, OpPlus, OpQuestion, OpNonGreedy, OpCapture, OpGroup,
                     OpFlagOnlyGroup} then 1
      else 0)"

fun arity_ok :: "Expr \<Rightarrow> bool" where
  "arity_ok (MkExpr pos op args) \<longleftrightarrow> min_arity op \<le> length args \<and> list_all arity_ok args"

fun spans_ok :: "Regexp \<Rightarrow> Expr \<Rightarrow> bool" where
  "spans_ok re (MkExpr pos op args) \<longleftrightarrow>
     span_ok re (MkExpr pos op args) \<and> list_all (spans_ok re) args"

text \<open>
  The cases of the \<^verbatim>\<open>switch\<close> grouped by the shape of their rendering rule; lemma
  \<open>formatExprSyntax_rule\<close> below shows that the grouping is the formatter.
\<close>

datatype rule = RBraceText | RText | RSym string | RQuote | RRange | RUnary string | RBinary string
  | RArgList string string | RDefault

definition rule_of :: "Operation \<Rightarrow> rule" where
  "rule_of op =
     (if op = OpChar \<or> op = OpLiteral then RBraceText
      else if op \<in> verbatimOps then RText
      else if op = OpRepeat then RBinary ''(repeat ''
      else if op = OpCaret then RSym ''^''
      else if op = OpDollar then RSym ''$''
      else if op = OpDot then RSym ''.''
      else if op = OpQuote then RQuote
      else if op = OpCharRange then RRange
      else if op = OpCharClass then RArgList ''['' '']''
      else if op = OpNegCharClass then RArgList ''[^'' '']''
      else if op = OpConcat then RArgList ''{'' ''}''
      else if op = OpAlt then RArgList ''(or '' '')''
      else if op = OpCapture then RUnary ''(capture ''
      else if op = OpNamedCapture then RBinary ''(capture ''
      else if op = OpGroup then RUnary ''(group ''
      else if op = OpGroupWithFlags then RBinary ''(group ''
      else if op = OpFlagOnlyGroup then RUnary ''(flags ''
      else if op = OpPlus then RUnary ''(+ ''
      else if op = OpStar then RUnary ''(* ''
      else if op = OpQuestion then RUnary ''(? ''
      else if op = OpNonGreedy then RUnary ''(non-greedy ''
      else RDefault)"

definition brace_quote :: "string \<Rightarrow> string" where
  "brace_quote s =
     (if s = ''{'' then [CHR 0x27, CHR ''{'', CHR 0x27]
      else if s = ''}'' then [CHR 0x27, CHR ''}'', CHR 0x27]
      else s)"

text \<open>
  What the formatter reads of a tree. A skeleton keeps, node by node, the rendering rule
  taken, the text the rule extracts from the source and the arguments the rule renders, in
  order; it forgets the offsets, the arguments no rule looks at, and which of the tags
  \<^verbatim>\<open>Char\<close>, \<^verbatim>\<open>Literal\<close>, \<^verbatim>\<open>String\<close>, \<^verbatim>\<open>Escape...\<close>, \<^verbatim>\<open>PosixClass\<close> a leaf
  carries. \<open>skeleton\<close> follows the recursion of \<^verbatim>\<open>formatExprSyntax\<close> and is \<open>None\<close>
  where the formatter panics; \<open>render\<close> prints a skeleton.
\<close>

datatype skel =
    SText string
  | SBrace char
  | SSym string
  | SQuote string
  | SRange skel skel
  | SUnary string skel
  | SBinary string skel string
  | SList string string "skel list"
  | SDefault string

function skeleton :: "Regexp \<Rightarrow> Expr \<Rightarrow> skel option"
  and skeletons :: "Regexp \<Rightarrow> Expr list \<Rightarrow> skel list option"
where
  "skeleton re e =
     (case rule_of (Op e) of
        RBraceText \<Rightarrow>
          (case ExprString re e of Inl p \<Rightarrow> None
           | Inr s \<Rightarrow>
               if s = ''{'' then Some (SBrace (CHR ''{''))
               else if s = ''}'' then Some (SBrace (CHR ''}''))
               else Some (SText s))
      | RText \<Rightarrow> (case ExprString re e of Inl p \<Rightarrow> None | Inr s \<Rightarrow> Some (SText s))
      | RSym s \<Rightarrow> Some (SSym s)
      | RQuote \<Rightarrow> (case ExprString re e of Inl p \<Rightarrow> None | Inr s \<Rightarrow> Some (SQuote s))
      | RRange \<Rightarrow>
          (case index (Args e) 0 of Inl p \<Rightarrow> None
           | Inr a0 \<Rightarrow>
          (case skeleton re a0 of None \<Rightarrow> None
           | Some k0 \<Rightarrow>
          (case index (Args e) 1 of Inl p \<Rightarrow> None
           | Inr a1 \<Rightarrow>
          (case skeleton re a1 of None \<Rightarrow> None
           | Some k1 \<Rightarrow> Some (SRange k0 k1)))))
      | RUnary pre \<Rightarrow>
          (case index (Args e) 0 of Inl p \<Rightarrow> None
           | Inr a0 \<Rightarrow>
          (case skeleton re a0 of None \<Rightarrow> None
           | Some k0 \<Rightarrow> Some (SUnary pre k0)))
      | RBinary pre \<Rightarrow>
          (case index (Args e) 0 of Inl p \<Rightarrow> None
           | Inr a0 \<Rightarrow>
          (case skeleton re a0 of None \<Rightarrow> None
           | Some k0 \<Rightarrow>
          (case index (Args e) 1 of Inl p \<Rightarrow> None
           | Inr a1 \<Rightarrow>
          (case ExprString re a1 of Inl p \<Rightarrow> None
           | Inr s1 \<Rightarrow> Some (SBinary pre k0 s1)))))
      | RArgList pre post \<Rightarrow>
          (case skeletons re (Args e) of None \<Rightarrow> None
           | Some ks \<Rightarrow> Some (SList pre post ks))
      | RDefault \<Rightarrow> Some (SDefault (decimal (unat (Op e)))))"
| "skeletons re [] = Some []"
| "skeletons re (e # es) =
     (case skeleton re e of None \<Rightarrow> None
      | Some k \<Rightarrow>
     (case skeletons re es of None \<Rightarrow> None
      | Some ks \<Rightarrow> Some (k # ks)))"
  by pat_completeness auto

termination
proof (relation "measure (\<lambda>x. case x of
          Inl (re, e) \<Rightarrow> 2 * size e
        | Inr (re, es) \<Rightarrow> 2 * size_list size es + 1)", goal_cases)
  case 1
  show ?case by simp
qed (auto dest!: index_size, (case_tac e, simp)+)

declare skeleton.simps(1) [simp del]

fun render :: "skel \<Rightarrow> string" where
  "render (SText t) = t"
| "render (SBrace c) = [CHR 0x27, c, CHR 0x27]"
| "render (SSym s) = s"
| "render (SQuote t) = ''(q '' @ t @ '')''"
| "render (SRange a b) = render a @ ''-'' @ render b"
| "render (SUnary pre a) = pre @ render a @ '')''"
| "render (SBinary pre a t) = pre @ render a @ '' '' @ t @ '')''"
| "render (SList pre post ks) = pre @ Join (map render ks) '' '' @ post"
| "render (SDefault d) = ''<op='' @ d @ ''>''"

text \<open>
  The trees on which the rendering can be read back. Rendered arguments are followed by a
  space or a closing \<^verbatim>\<open>)\<close>, \<^verbatim>\<open>]\<close>, \<^verbatim>\<open>}\<close>; a leaf text is a \<open>token\<close> when it is
  not empty, holds none of these characters and no \<^verbatim>\<open>-\<close>, and does not begin with a
  character that begins another rule's output. A skeleton is \<open>good\<close> when its leaf texts
  are tokens (or the single brace of a \<^verbatim>\<open>Char\<close>/\<^verbatim>\<open>Literal\<close>), the texts embedded in
  \<^verbatim>\<open>(q ...)\<close> and in the two-argument wrappers hold no \<^verbatim>\<open>)\<close>, the bounds of a range are
  leaves, and a \<^verbatim>\<open>CharClass\<close> does not begin with a \<^verbatim>\<open>Caret\<close> node.
\<close>

definition stop :: "char \<Rightarrow> bool" where
  "stop c \<longleftrightarrow> c = CHR '' '' \<or> c = CHR '')'' \<or> c = CHR '']'' \<or> c = CHR ''}''"

definition stops :: "string \<Rightarrow> bool" where
  "stops r \<longleftrightarrow> (case r of [] \<Rightarrow> True | c # _ \<Rightarrow> stop c)"

definition inner :: "char \<Rightarrow> bool" where
  "inner c \<longleftrightarrow> \<not> stop c \<and> c \<noteq> CHR ''-''"

definition token :: "string \<Rightarrow> bool" where
  "token w \<longleftrightarrow>
     (case w of [] \<Rightarrow> False
      | c # _ \<Rightarrow> c \<notin> set [CHR ''('', CHR ''['', CHR ''{'', CHR 0x27, CHR ''^'', CHR ''$'',
                            CHR ''.'', CHR ''<''])
     \<and> list_all inner w"

fun leaf :: "skel \<Rightarrow> bool" where
  "leaf (SText t) = True"
| "leaf (SBrace c) = True"
| "leaf k = False"

definition unary_pre :: "string \<Rightarrow> bool" where
  "unary_pre pre \<longleftrightarrow>
     pre \<in> set [''(capture '', ''(group '', ''(flags '', ''(+ '', ''(* '', ''(? '',
                 ''(non-greedy '']"

definition binary_pre :: "string \<Rightarrow> bool" where
  "binary_pre pre \<longleftrightarrow> pre \<in> set [''(repeat '', ''(capture '', ''(group '']"

definition list_pre :: "string \<Rightarrow> string \<Rightarrow> bool" where
  "list_pre pre post \<longleftrightarrow>
     (pre, post) \<in> set [(''['', '']''), (''[^'', '']''), (''{'', ''}''), (''(or '', '')'')]"

definition no_caret_first :: "string \<Rightarrow> skel list \<Rightarrow> bool" where
  "no_caret_first pre ks \<longleftrightarrow>
     (pre = ''['' \<longrightarrow> (case ks of [] \<Rightarrow> True | k # _ \<Rightarrow> k \<noteq> SSym ''^''))"

fun good :: "skel \<Rightarrow> bool" where
  "good (SText t) = token t"
| "good (SBrace c) = (c = CHR ''{'' \<or> c = CHR ''}'')"
| "good (SSym s) = (s = ''^'' \<or> s = ''$'' \<or> s = ''.'')"
| "good (SQuote t) = (CHR '')'' \<notin> set t)"
| "good (SRange a b) = (leaf a \<and> leaf b \<and> good a \<and> good b)"
| "good (SUnary pre a) = (unary_pre pre \<and> good a)"
| "good (SBinary pre a t) = (binary_pre pre \<and> good a \<and> CHR '')'' \<notin> set t)"
| "good (SList pre post ks) = (list_pre pre post \<and> no_caret_first pre ks \<and> list_all good ks)"
| "good (SDefault d) = (CHR ''>'' \<notin> set d)"

text \<open>
  Auxiliary notions of the proof: the class of a rendering by its first character, and the
  prefix and body of the parenthesised forms.
\<close>

fun cls :: "skel \<Rightarrow> nat" where
  "cls (SText t) = 0"
| "cls (SBrace c) = 1"
| "cls (SSym s) = 2"
| "cls (SQuote t) = 3"
| "cls (SRange a b) = cls a"
| "cls (SUnary pre a) = 3"
| "cls (SBinary pre a t) = 3"
| "cls (SList pre post ks) = (if pre = ''(or '' then 3 else if pre = ''{'' then 5 else 4)"
| "cls (SDefault d) = 6"

definition char_cls :: "char \<Rightarrow> nat" where
  "char_cls c =
     (if c = CHR 0x27 then 1
      else if c = CHR ''^'' \<or> c = CHR ''$'' \<or> c = CHR ''.'' then 2
      else if c = CHR ''('' then 3
      else if c = CHR ''['' then 4
      else if c = CHR ''{'' then 5
      else if c = CHR ''<'' then 6
      else 0)"

definition brk :: "string \<Rightarrow> bool" where
  "brk r \<longleftrightarrow> (case r of [] \<Rightarrow> True | c # _ \<Rightarrow> \<not> inner c)"

definition paren_pre :: "string \<Rightarrow> bool" where
  "paren_pre p \<longleftrightarrow> p = ''(q '' \<or> p = ''(or '' \<or> unary_pre p \<or> binary_pre p"

fun ppre :: "skel \<Rightarrow> string" where
  "ppre (SQuote t) = ''(q ''"
| "ppre (SUnary pre a) = pre"
| "ppre (SBinary pre a t) = pre"
| "ppre (SList pre post ks) = pre"
| "ppre k = []"

fun pbody :: "skel \<Rightarrow> string" where
  "pbody (SQuote t) = t @ '')''"
| "pbody (SUnary pre a) = render a @ '')''"
| "pbody (SBinary pre a t) = render a @ '' '' @ t @ '')''"
| "pbody (SList pre post ks) = Join (map render ks) '' '' @ post"
| "pbody k = []"

definition readable :: "Regexp \<Rightarrow> Expr \<Rightarrow> bool" where
  "readable re e = (case skeleton re e of None \<Rightarrow> False | Some k \<Rightarrow> good k)"

lemma ExprString_ok: "span_ok re e \<Longrightarrow> ExprString re e = Inr (span_text re e)"
  by (simp add: ExprString_def slice_def span_ok_def span_text_def)

lemma ExprString_Inr: "ExprString re e = Inr s \<Longrightarrow> span_ok re e \<and> s = span_text re e"
  by (auto simp: ExprString_def slice_def span_ok_def span_text_def split: if_splits)

lemma ExprString_Inl: "ExprString re e = Inl p \<Longrightarrow> \<not> span_ok re e \<and> p = SliceBoundsOutOfRange"
  by (auto simp: ExprString_def slice_def span_ok_def split: if_splits)

lemma fmt_CharLiteral:
  "Op e = OpChar \<or> Op e = OpLiteral \<Longrightarrow>
   formatExprSyntax re e =
     (case ExprString re e of Inl p \<Rightarrow> Inl p
      | Inr s \<Rightarrow>
          if s = ''{'' then Inr [CHR 0x27, CHR ''{'', CHR 0x27]
          else if s = ''}'' then Inr [CHR 0x27, CHR ''}'', CHR 0x27]
          else Inr s)"
  by (subst formatExprSyntax.simps) simp

lemma fmt_verbatim:
  "Op e \<in> verbatimOps \<Longrightarrow> formatExprSyntax re e = ExprString re e"
  by (subst formatExprSyntax.simps) (auto simp: verbatimOps_def Op_defs)

lemma fmt_Caret: "Op e = OpCaret \<Longrightarrow> formatExprSyntax re e = Inr ''^''"
  by (subst formatExprSyntax.simps) (simp add: Op_defs)

lemma fmt_Dollar: "Op e = OpDollar \<Longrightarrow> formatExprSyntax re e = Inr ''$''"
  by (subst formatExprSyntax.simps) (simp add: Op_defs)

lemma fmt_Dot: "Op e = OpDot \<Longrightarrow> formatExprSyntax re e = Inr ''.''"
  by (subst formatExprSyntax.simps) (simp add: Op_defs)

lemma fmt_Quote:
  "Op e = OpQuote \<Longrightarrow> formatExprSyntax re e =
     (case ExprString re e of Inl p \<Rightarrow> Inl p | Inr s \<Rightarrow> Inr (''(q '' @ s @ '')''))"
  by (subst formatExprSyntax.simps) (simp add: Op_defs)

lemma fmt_CharRange:
  "Op e = OpCharRange \<Longrightarrow> formatExprSyntax re e =
     (case index (Args e) 0 of Inl p \<Rightarrow> Inl p
      | Inr a0 \<Rightarrow>
     (case formatExprSyntax re a0 of Inl p \<Rightarrow> Inl p
      | Inr s0 \<Rightarrow>
     (case index (Args e) 1 of Inl p \<Rightarrow> Inl p
      | Inr a1 \<Rightarrow>
     (case formatExprSyntax re a1 of Inl p \<Rightarrow> Inl p
      | Inr s1 \<Rightarrow> Inr (s0 @ ''-'' @ s1)))))"
  by (subst formatExprSyntax.simps) (simp add: Op_defs)

lemma fmt_Capture:
  "Op e = OpCapture \<Longrightarrow> formatExprSyntax re e =
     (case index (Args e) 0 of Inl p \<Rightarrow> Inl p
      | Inr a0 \<Rightarrow>
     (case formatExprSyntax re a0 of Inl p \<Rightarrow> Inl p
      | Inr s0 \<Rightarrow> Inr (''(capture '' @ s0 @ '')'')))"
  by (subst formatExprSyntax.simps) (simp add: Op_defs)

lemma fmt_Group:
  "Op e = OpGroup \<Longrightarrow> formatExprSyntax re e =
     (case index (Args e) 0 of Inl p \<Rightarrow> Inl p
      | Inr a0 \<Rightarrow>
     (case formatExprSyntax re a0 of Inl p \<Rightarrow> Inl p
      | Inr s0 \<Rightarrow> Inr (''(group '' @ s0 @ '')'')))"
  by (subst formatExprSyntax.simps) (simp add: Op_defs)

lemma fmt_FlagOnlyGroup:
  "Op e = OpFlagOnlyGroup \<Longrightarrow> formatExprSyntax re e =
     (case index (Args e) 0 of Inl p \<Rightarrow> Inl p
      | Inr a0 \<Rightarrow>
     (case formatExprSyntax re a0 of Inl p \<Rightarrow> Inl p
      | Inr s0 \<Rightarrow> Inr (''(flags '' @ s0 @ '')'')))"
  by (subst formatExprSyntax.simps) (simp add: Op_defs)

lemma fmt_Plus:
  "Op e = OpPlus \<Longrightarrow> formatExprSyntax re e =
     (case index (Args e) 0 of Inl p \<Rightarrow> Inl p
      | Inr a0 \<Rightarrow>
     (case formatExprSyntax re a0 of Inl p \<Rightarrow> Inl p
      | Inr s0 \<Rightarrow> Inr (''(+ '' @ s0 @ '')'')))"
  by (subst formatExprSyntax.simps) (simp add: Op_defs)

lemma fmt_Star:
  "Op e = OpStar \<Longrightarrow> formatExprSyntax re e =
     (case index (Args e) 0 of Inl p \<Rightarrow> Inl p
      | Inr a0 \<Rightarrow>
     (case formatExprSyntax re a0 of Inl p \<Rightarrow> Inl p
      | Inr s0 \<Rightarrow> Inr (''(* '' @ s0 @ '')'')))"
  by (subst formatExprSyntax.simps) (simp add: Op_defs)

lemma fmt_Question:
  "Op e = OpQuestion \<Longrightarrow> formatExprSyntax re e =
     (case index (Args e) 0 of Inl p \<Rightarrow> Inl p
      | Inr a0 \<Rightarrow>
     (case formatExprSyntax re a0 of Inl p \<Rightarrow> Inl p
      | Inr s0 \<Rightarrow> Inr (''(? '' @ s0 @ '')'')))"
  by (subst formatExprSyntax.simps) (simp add: Op_defs)

lemma fmt_NonGreedy:
  "Op e = OpNonGreedy \<Longrightarrow> formatExprSyntax re e =
     (case index (Args e) 0 of Inl p \<Rightarrow> Inl p
      | Inr a0 \<Rightarrow>
     (case formatExprSyntax re a0 of Inl p \<Rightarrow> Inl p
      | Inr s0 \<Rightarrow> Inr (''(non-greedy '' @ s0 @ '')'')))"
  by (subst formatExprSyntax.simps) (simp add: Op_defs)

lemma fmt_Repeat:
  "Op e = OpRepeat \<Longrightarrow> formatExprSyntax re e =
     (case index (Args e) 0 of Inl p \<Rightarrow> Inl p
      | Inr a0 \<Rightarrow>
     (case formatExprSyntax re a0 of Inl p \<Rightarrow> Inl p
      | Inr s0 \<Rightarrow>
     (case index (Args e) 1 of Inl p \<Rightarrow> Inl p
      | Inr a1 \<Rightarrow>
     (case ExprString re a1 of Inl p \<Rightarrow> Inl p
      | Inr s1 \<Rightarrow> Inr (''(repeat '' @ s0 @ '' '' @ s1 @ '')'')))))"
  by (subst formatExprSyntax.simps) (simp add: Op_defs)

lemma fmt_NamedCapture:
  "Op e = OpNamedCapture \<Longrightarrow> formatExprSyntax re e =
     (case index (Args e) 0 of Inl p \<Rightarrow> Inl p
      | Inr a0 \<Rightarrow>
     (case formatExprSyntax re a0 of Inl p \<Rightarrow> Inl p
      | Inr s0 \<Rightarrow>
     (case index (Args e) 1 of Inl p \<Rightarrow> Inl p
      | Inr a1 \<Rightarrow>
     (case ExprString re a1 of Inl p \<Rightarrow> Inl p
      | Inr s1 \<Rightarrow> Inr (''(capture '' @ s0 @ '' '' @ s1 @ '')'')))))"
  by (subst formatExprSyntax.simps) (simp add: Op_defs)

lemma fmt_GroupWithFlags:
  "Op e = OpGroupWithFlags \<Longrightarrow> formatExprSyntax re e =
     (case index (Args e) 0 of Inl p \<Rightarrow> Inl p
      | Inr a0 \<Rightarrow>
     (case formatExprSyntax re a0 of Inl p \<Rightarrow> Inl p
      | Inr s0 \<Rightarrow>
     (case index (Args e) 1 of Inl p \<Rightarrow> Inl p
      | Inr a1 \<Rightarrow>
     (case ExprString re a1 of Inl p \<Rightarrow> Inl p
      | Inr s1 \<Rightarrow> Inr (''(group '' @ s0 @ '' '' @ s1 @ '')'')))))"
  by (subst formatExprSyntax.simps) (simp add: Op_defs)

lemma fmt_CharClass:
  "Op e = OpCharClass \<Longrightarrow> formatExprSyntax re e =
     (case formatArgsSyntax re (Args e) of Inl p \<Rightarrow> Inl p
      | Inr s \<Rightarrow> Inr (''['' @ s @ '']''))"
  by (subst formatExprSyntax.simps) (simp add: Op_defs)

lemma fmt_NegCharClass:
  "Op e = OpNegCharClass \<Longrightarrow> formatExprSyntax re e =
     (case formatArgsSyntax re (Args e) of Inl p \<Rightarrow> Inl p
      | Inr s \<Rightarrow> Inr (''[^'' @ s @ '']''))"
  by (subst formatExprSyntax.simps) (simp add: Op_defs)

lemma fmt_Concat:
  "Op e = OpConcat \<Longrightarrow> formatExprSyntax re e =
     (case formatArgsSyntax re (Args e) of Inl p \<Rightarrow> Inl p
      | Inr s \<Rightarrow> Inr (''{'' @ s @ ''}''))"
  by (subst formatExprSyntax.simps) (simp add: Op_defs)

lemma fmt_Alt:
  "Op e = OpAlt \<Longrightarrow> formatExprSyntax re e =
     (case formatArgsSyntax re (Args e) of Inl p \<Rightarrow> Inl p
      | Inr s \<Rightarrow> Inr (''(or '' @ s @ '')''))"
  by (subst formatExprSyntax.simps) (simp add: Op_defs)

lemma fmt_default:
  "Op e \<notin> handledOps \<Longrightarrow>
   formatExprSyntax re e = Inr (''<op='' @ decimal (unat (Op e)) @ ''>'')"
  by (subst formatExprSyntax.simps) (simp add: handledOps_def)

lemma formatParts_map:
  "map (formatExprSyntax re) es = map Inr ss \<Longrightarrow> formatParts re es = Inr ss"
  by (induction es arbitrary: ss) auto

lemma formatArgs_map:
  "map (formatExprSyntax re) es = map Inr ss \<Longrightarrow>
   formatArgsSyntax re es = Inr (Join ss '' '')"
  by (simp add: formatArgsSyntax.simps formatParts_map)


section \<open>Leaf text\<close>

text \<open>
  C2. A node tagged \<^verbatim>\<open>Char\<close> or \<^verbatim>\<open>Literal\<close> whose text \<^verbatim>\<open>Source[Begin:End]\<close> is
  exactly the one character \<^verbatim>\<open>{\<close> is rendered as the three characters quote, brace,
  quote; likewise for \<^verbatim>\<open>}\<close>; any other text is rendered verbatim.
\<close>

theorem brace_quoting:
  assumes "Op e = OpChar \<or> Op e = OpLiteral" and "span_ok re e"
  shows "formatExprSyntax re e =
           Inr (if span_text re e = ''{'' then [CHR 0x27, CHR ''{'', CHR 0x27]
                else if span_text re e = ''}'' then [CHR 0x27, CHR ''}'', CHR 0x27]
                else span_text re e)"
  using assms by (simp add: fmt_CharLiteral ExprString_ok)

theorem brace_quoting_witness:
  "Op (MkExpr \<lparr>Begin = 1, End = 2\<rparr> OpLiteral []) = OpLiteral
   \<and> span_ok \<lparr>Source = ''a{'', Expr = MkExpr \<lparr>Begin = 1, End = 2\<rparr> OpLiteral []\<rparr>
        (MkExpr \<lparr>Begin = 1, End = 2\<rparr> OpLiteral [])
   \<and> formatExprSyntax \<lparr>Source = ''a{'', Expr = MkExpr \<lparr>Begin = 1, End = 2\<rparr> OpLiteral []\<rparr>
        (MkExpr \<lparr>Begin = 1, End = 2\<rparr> OpLiteral []) = Inr [CHR 0x27, CHR ''{'', CHR 0x27]"
  using brace_quoting [of "MkExpr \<lparr>Begin = 1, End = 2\<rparr> OpLiteral []"
      "\<lparr>Source = ''a{'', Expr = MkExpr \<lparr>Begin = 1, End = 2\<rparr> OpLiteral []\<rparr>"]
  by (simp add: span_ok_def span_text_def ExprBegin_def ExprEnd_def)

text \<open>
  C6. A node tagged \<^verbatim>\<open>String\<close>, \<^verbatim>\<open>Escape\<close>, \<^verbatim>\<open>EscapeMeta\<close>, \<^verbatim>\<open>EscapeOctal\<close>,
  \<^verbatim>\<open>EscapeHex\<close>, \<^verbatim>\<open>EscapeHexFull\<close>, \<^verbatim>\<open>EscapeUni\<close>, \<^verbatim>\<open>EscapeUniFull\<close> or
  \<^verbatim>\<open>PosixClass\<close> is rendered as exactly \<^verbatim>\<open>Source[Begin:End]\<close>; so is a \<^verbatim>\<open>Char\<close> or
  \<^verbatim>\<open>Literal\<close> whose text is not a single brace; a \<^verbatim>\<open>Quote\<close> is rendered as
  \<^verbatim>\<open>(q \<close> followed by exactly that text followed by \<^verbatim>\<open>)\<close>.
\<close>

theorem text_fidelity:
  assumes "span_ok re e"
  shows "(Op e \<in> verbatimOps \<longrightarrow> formatExprSyntax re e = Inr (span_text re e))
       \<and> ((Op e = OpChar \<or> Op e = OpLiteral)
            \<and> span_text re e \<noteq> ''{'' \<and> span_text re e \<noteq> ''}''
            \<longrightarrow> formatExprSyntax re e = Inr (span_text re e))
       \<and> (Op e = OpQuote \<longrightarrow> formatExprSyntax re e = Inr (''(q '' @ span_text re e @ '')''))"
  using assms by (simp add: fmt_verbatim fmt_CharLiteral fmt_Quote ExprString_ok)

theorem text_fidelity_witness:
  "span_ok \<lparr>Source = ''Q:a.b'', Expr = MkExpr \<lparr>Begin = 0, End = 0\<rparr> OpConcat []\<rparr> (MkExpr \<lparr>Begin = 2, End = 5\<rparr> OpQuote [])
   \<and> formatExprSyntax \<lparr>Source = ''Q:a.b'', Expr = MkExpr \<lparr>Begin = 0, End = 0\<rparr> OpConcat []\<rparr>
        (MkExpr \<lparr>Begin = 2, End = 5\<rparr> OpQuote []) = Inr ''(q a.b)''
   \<and> formatExprSyntax \<lparr>Source = ''Q:a.b'', Expr = MkExpr \<lparr>Begin = 0, End = 0\<rparr> OpConcat []\<rparr>
        (MkExpr \<lparr>Begin = 2, End = 5\<rparr> OpEscapeHex []) = Inr ''a.b''
   \<and> formatExprSyntax \<lparr>Source = ''Q:a.b'', Expr = MkExpr \<lparr>Begin = 0, End = 0\<rparr> OpConcat []\<rparr>
        (MkExpr \<lparr>Begin = 2, End = 5\<rparr> OpChar []) = Inr ''a.b''"
  using text_fidelity [of "\<lparr>Source = ''Q:a.b'', Expr = MkExpr \<lparr>Begin = 0, End = 0\<rparr> OpConcat []\<rparr>"
      "MkExpr \<lparr>Begin = 2, End = 5\<rparr> OpQuote []"]
    text_fidelity [of "\<lparr>Source = ''Q:a.b'', Expr = MkExpr \<lparr>Begin = 0, End = 0\<rparr> OpConcat []\<rparr>"
      "MkExpr \<lparr>Begin = 2, End = 5\<rparr> OpEscapeHex []"]
    text_fidelity [of "\<lparr>Source = ''Q:a.b'', Expr = MkExpr \<lparr>Begin = 0, End = 0\<rparr> OpConcat []\<rparr>"
      "MkExpr \<lparr>Begin = 2, End = 5\<rparr> OpChar []"]
  by (simp add: span_ok_def span_text_def ExprBegin_def ExprEnd_def verbatimOps_def Op_defs)

text \<open>
  C10. The quoting of a single brace is for \<^verbatim>\<open>Char\<close> and \<^verbatim>\<open>Literal\<close> only: a node
  tagged \<^verbatim>\<open>String\<close> whose text is exactly \<^verbatim>\<open>{\<close> or \<^verbatim>\<open>}\<close> is rendered as that
  brace, unquoted, and so is the text of the second argument of a \<^verbatim>\<open>Repeat\<close>,
  \<^verbatim>\<open>NamedCapture\<close> or \<^verbatim>\<open>GroupWithFlags\<close> node.
\<close>

theorem string_brace_verbatim:
  assumes "span_ok re e" and "span_text re e = ''{'' \<or> span_text re e = ''}''"
  shows "(Op e = OpString \<longrightarrow> formatExprSyntax re e = Inr (span_text re e))
       \<and> (index (Args n) 0 = Inr a \<and> formatExprSyntax re a = Inr s \<and> index (Args n) 1 = Inr e
            \<longrightarrow> (Op n = OpRepeat \<longrightarrow>
                   formatExprSyntax re n = Inr (''(repeat '' @ s @ '' '' @ span_text re e @ '')''))
              \<and> (Op n = OpNamedCapture \<longrightarrow>
                   formatExprSyntax re n = Inr (''(capture '' @ s @ '' '' @ span_text re e @ '')''))
              \<and> (Op n = OpGroupWithFlags \<longrightarrow>
                   formatExprSyntax re n = Inr (''(group '' @ s @ '' '' @ span_text re e @ '')'')))"
  using assms
  by (simp add: fmt_verbatim verbatimOps_def ExprString_ok fmt_Repeat fmt_NamedCapture
      fmt_GroupWithFlags)

theorem string_brace_verbatim_witness:
  "span_ok \<lparr>Source = ''x{'', Expr = MkExpr \<lparr>Begin = 0, End = 0\<rparr> OpConcat []\<rparr> (MkExpr \<lparr>Begin = 1, End = 2\<rparr> OpString [])
   \<and> span_text \<lparr>Source = ''x{'', Expr = MkExpr \<lparr>Begin = 0, End = 0\<rparr> OpConcat []\<rparr> (MkExpr \<lparr>Begin = 1, End = 2\<rparr> OpString []) = ''{''
   \<and> formatExprSyntax \<lparr>Source = ''x{'', Expr = MkExpr \<lparr>Begin = 0, End = 0\<rparr> OpConcat []\<rparr>
        (MkExpr \<lparr>Begin = 1, End = 2\<rparr> OpString []) = Inr ''{''
   \<and> formatExprSyntax \<lparr>Source = ''x{'', Expr = MkExpr \<lparr>Begin = 0, End = 0\<rparr> OpConcat []\<rparr>
        (MkExpr \<lparr>Begin = 0, End = 2\<rparr> OpRepeat
           [MkExpr \<lparr>Begin = 0, End = 1\<rparr> OpChar [], MkExpr \<lparr>Begin = 1, End = 2\<rparr> OpString []])
       = Inr ''(repeat x {)''"
  using string_brace_verbatim [of "\<lparr>Source = ''x{'', Expr = MkExpr \<lparr>Begin = 0, End = 0\<rparr> OpConcat []\<rparr>"
      "MkExpr \<lparr>Begin = 1, End = 2\<rparr> OpString []"
      "MkExpr \<lparr>Begin = 0, End = 2\<rparr> OpRepeat
         [MkExpr \<lparr>Begin = 0, End = 1\<rparr> OpChar [], MkExpr \<lparr>Begin = 1, End = 2\<rparr> OpString []]"
      "MkExpr \<lparr>Begin = 0, End = 1\<rparr> OpChar []" "''x''"]
  by (simp add: span_ok_def span_text_def ExprBegin_def ExprEnd_def index_def fmt_CharLiteral
      ExprString_def slice_def)

section \<open>Tags without a rendering rule\<close>

text \<open>
  C3. A node whose tag is none of the case labels of the formatter, the sentinels
  \<^verbatim>\<open>OpNone\<close> and \<^verbatim>\<open>OpNone2\<close> among them, is rendered as \<^verbatim>\<open><op=N>\<close> with \<open>N\<close>
  the tag's value in decimal; the formatter returns that string and does not panic.
\<close>

theorem unhandled_tag_placeholder:
  "(Op e \<notin> handledOps \<longrightarrow>
      formatExprSyntax re e = Inr (''<op='' @ decimal (unat (Op e)) @ ''>''))
   \<and> OpNone \<notin> handledOps \<and> OpNone2 \<notin> handledOps"
  by (simp add: fmt_default) (simp add: handledOps_def Op_defs)

theorem unhandled_tag_placeholder_witness:
  "OpNone2 \<notin> handledOps
   \<and> formatExprSyntax \<lparr>Source = ''x'', Expr = MkExpr \<lparr>Begin = 0, End = 0\<rparr> OpNone2 []\<rparr>
        (MkExpr \<lparr>Begin = 0, End = 0\<rparr> OpNone2 []) = Inr ''<op=32>''
   \<and> formatExprSyntax \<lparr>Source = ''x'', Expr = MkExpr \<lparr>Begin = 0, End = 0\<rparr> OpNone2 []\<rparr>
        (MkExpr \<lparr>Begin = 0, End = 0\<rparr> OpNone []) = Inr ''<op=0>''
   \<and> formatExprSyntax \<lparr>Source = ''x'', Expr = MkExpr \<lparr>Begin = 0, End = 0\<rparr> OpNone2 []\<rparr>
        (MkExpr \<lparr>Begin = 0, End = 0\<rparr> 200 []) = Inr ''<op=200>''"
  using unhandled_tag_placeholder [of "MkExpr \<lparr>Begin = 0, End = 0\<rparr> OpNone2 []"
      "\<lparr>Source = ''x'', Expr = MkExpr \<lparr>Begin = 0, End = 0\<rparr> OpNone2 []\<rparr>"]
    unhandled_tag_placeholder [of "MkExpr \<lparr>Begin = 0, End = 0\<rparr> OpNone []"
      "\<lparr>Source = ''x'', Expr = MkExpr \<lparr>Begin = 0, End = 0\<rparr> OpNone2 []\<rparr>"]
    unhandled_tag_placeholder [of "MkExpr \<lparr>Begin = 0, End = 0\<rparr> 200 []"
      "\<lparr>Source = ''x'', Expr = MkExpr \<lparr>Begin = 0, End = 0\<rparr> OpNone2 []\<rparr>"]
  by (simp add: decimal.simps digit_def) (simp add: handledOps_def Op_defs)

text \<open>
  C4. \<^verbatim>\<open>OpPossessive\<close> is declared in operation.go and is no case label of the
  formatter: a node tagged \<^verbatim>\<open>Possessive\<close> is rendered by the default case as
  \<^verbatim>\<open><op=8>\<close>, whatever its arguments, and not as a wrapper \<^verbatim>\<open>(possessive ...)\<close>.
\<close>

theorem possessive_placeholder:
  "formatExprSyntax re (MkExpr pos OpPossessive args) = Inr ''<op=8>''
   \<and> formatExprSyntax re (MkExpr pos OpPossessive args) \<noteq> Inr (''(possessive '' @ s @ '')'')"
proof -
  have "OpPossessive \<notin> handledOps"
    by (simp add: handledOps_def Op_defs)
  then have "formatExprSyntax re (MkExpr pos OpPossessive args) = Inr ''<op=8>''"
    by (simp add: fmt_default) (simp add: OpPossessive_def decimal.simps digit_def)
  then show ?thesis by simp
qed

section \<open>Concatenation and the last argument\<close>

text \<open>
  C8. A \<^verbatim>\<open>Concat\<close> node without arguments is rendered as \<^verbatim>\<open>{}\<close>; in general, when
  its arguments are rendered as the strings \<open>ss\<close>, a \<^verbatim>\<open>Concat\<close> node is rendered as
  \<^verbatim>\<open>{\<close>, then \<open>ss\<close> joined by single spaces, then \<^verbatim>\<open>}\<close>.
\<close>

theorem concat_rendering:
  assumes "Op e = OpConcat"
  shows "(Args e = [] \<longrightarrow> formatExprSyntax re e = Inr ''{}'')
       \<and> (\<forall>ss. map (formatExprSyntax re) (Args e) = map Inr ss \<longrightarrow>
              formatExprSyntax re e = Inr (''{'' @ Join ss '' '' @ ''}''))"
proof -
  have "Args e = [] \<Longrightarrow> formatArgsSyntax re (Args e) = Inr []"
    by (simp add: formatArgsSyntax.simps)
  with assms show ?thesis
    by (auto simp: fmt_Concat formatArgs_map)
qed

theorem concat_rendering_witness:
  "Op (MkExpr \<lparr>Begin = 0, End = 0\<rparr> OpConcat []) = OpConcat
   \<and> formatExprSyntax \<lparr>Source = ''ab'', Expr = MkExpr \<lparr>Begin = 0, End = 0\<rparr> OpConcat []\<rparr>
        (MkExpr \<lparr>Begin = 0, End = 0\<rparr> OpConcat []) = Inr ''{}''
   \<and> formatExprSyntax \<lparr>Source = ''ab'', Expr = MkExpr \<lparr>Begin = 0, End = 0\<rparr> OpConcat []\<rparr>
        (MkExpr \<lparr>Begin = 0, End = 2\<rparr> OpConcat
           [MkExpr \<lparr>Begin = 0, End = 1\<rparr> OpChar [], MkExpr \<lparr>Begin = 1, End = 2\<rparr> OpChar []])
       = Inr ''{a b}''"
  using concat_rendering [of "MkExpr \<lparr>Begin = 0, End = 0\<rparr> OpConcat []"
      "\<lparr>Source = ''ab'', Expr = MkExpr \<lparr>Begin = 0, End = 0\<rparr> OpConcat []\<rparr>"]
    concat_rendering [of "MkExpr \<lparr>Begin = 0, End = 2\<rparr> OpConcat
           [MkExpr \<lparr>Begin = 0, End = 1\<rparr> OpChar [], MkExpr \<lparr>Begin = 1, End = 2\<rparr> OpChar []]"
      "\<lparr>Source = ''ab'', Expr = MkExpr \<lparr>Begin = 0, End = 0\<rparr> OpConcat []\<rparr>",
      THEN conjunct2, THEN spec, of "[''a'', ''b'']"]
  by (simp add: fmt_CharLiteral ExprString_def slice_def ExprBegin_def ExprEnd_def)

text \<open>
  C9. \<^verbatim>\<open>LastArg\<close> returns the last element of \<^verbatim>\<open>Args\<close> when there is one; on a node
  without arguments it indexes out of range, which is a panic.
\<close>

theorem LastArg_contract:
  "(Args e \<noteq> [] \<longrightarrow> LastArg e = Inr (last (Args e)))
   \<and> (Args e = [] \<longrightarrow> LastArg e = Inl IndexOutOfRange)"
proof (cases "Args e" rule: rev_cases)
  case Nil
  then show ?thesis by (simp add: LastArg_def index_def)
next
  case (snoc ys y)
  then show ?thesis by (simp add: LastArg_def index_def)
qed

theorem LastArg_contract_witness:
  "Args (MkExpr \<lparr>Begin = 0, End = 3\<rparr> OpAlt
      [MkExpr \<lparr>Begin = 0, End = 1\<rparr> OpChar [], MkExpr \<lparr>Begin = 2, End = 3\<rparr> OpChar []]) \<noteq> []
   \<and> LastArg (MkExpr \<lparr>Begin = 0, End = 3\<rparr> OpAlt
      [MkExpr \<lparr>Begin = 0, End = 1\<rparr> OpChar [], MkExpr \<lparr>Begin = 2, End = 3\<rparr> OpChar []])
     = Inr (MkExpr \<lparr>Begin = 2, End = 3\<rparr> OpChar [])
   \<and> Args (MkExpr \<lparr>Begin = 0, End = 0\<rparr> OpAlt []) = []
   \<and> LastArg (MkExpr \<lparr>Begin = 0, End = 0\<rparr> OpAlt []) = Inl IndexOutOfRange"
  using LastArg_contract [of "MkExpr \<lparr>Begin = 0, End = 3\<rparr> OpAlt
      [MkExpr \<lparr>Begin = 0, End = 1\<rparr> OpChar [], MkExpr \<lparr>Begin = 2, End = 3\<rparr> OpChar []]"]
    LastArg_contract [of "MkExpr \<lparr>Begin = 0, End = 0\<rparr> OpAlt []"]
  by simp


section \<open>Panics\<close>

lemma formatExprSyntax_rule:
  "formatExprSyntax re e =
     (case rule_of (Op e) of
        RBraceText \<Rightarrow>
          (case ExprString re e of Inl p \<Rightarrow> Inl p | Inr s \<Rightarrow> Inr (brace_quote s))
      | RText \<Rightarrow> ExprString re e
      | RSym s \<Rightarrow> Inr s
      | RQuote \<Rightarrow>
          (case ExprString re e of Inl p \<Rightarrow> Inl p | Inr s \<Rightarrow> Inr (''(q '' @ s @ '')''))
      | RRange \<Rightarrow>
          (case index (Args e) 0 of Inl p \<Rightarrow> Inl p
           | Inr a0 \<Rightarrow>
          (case formatExprSyntax re a0 of Inl p \<Rightarrow> Inl p
           | Inr s0 \<Rightarrow>
          (case index (Args e) 1 of Inl p \<Rightarrow> Inl p
           | Inr a1 \<Rightarrow>
          (case formatExprSyntax re a1 of Inl p \<Rightarrow> Inl p
           | Inr s1 \<Rightarrow> Inr (s0 @ ''-'' @ s1)))))
      | RUnary pre \<Rightarrow>
          (case index (Args e) 0 of Inl p \<Rightarrow> Inl p
           | Inr a0 \<Rightarrow>
          (case formatExprSyntax re a0 of Inl p \<Rightarrow> Inl p
           | Inr s0 \<Rightarrow> Inr (pre @ s0 @ '')'')))
      | RBinary pre \<Rightarrow>
          (case index (Args e) 0 of Inl p \<Rightarrow> Inl p
           | Inr a0 \<Rightarrow>
          (case formatExprSyntax re a0 of Inl p \<Rightarrow> Inl p
           | Inr s0 \<Rightarrow>
          (case index (Args e) 1 of Inl p \<Rightarrow> Inl p
           | Inr a1 \<Rightarrow>
          (case ExprString re a1 of Inl p \<Rightarrow> Inl p
           | Inr s1 \<Rightarrow> Inr (pre @ s0 @ '' '' @ s1 @ '')'')))))
      | RArgList pre post \<Rightarrow>
          (case formatArgsSyntax re (Args e) of Inl p \<Rightarrow> Inl p
           | Inr s \<Rightarrow> Inr (pre @ s @ post))
      | RDefault \<Rightarrow> Inr (''<op='' @ decimal (unat (Op e)) @ ''>''))"
proof -
  consider "Op e = OpChar \<or> Op e = OpLiteral" | "Op e \<in> verbatimOps" | "Op e = OpRepeat"
    | "Op e = OpCaret" | "Op e = OpDollar" | "Op e = OpDot" | "Op e = OpQuote"
    | "Op e = OpCharRange" | "Op e = OpCharClass" | "Op e = OpNegCharClass"
    | "Op e = OpConcat" | "Op e = OpAlt" | "Op e = OpCapture" | "Op e = OpNamedCapture"
    | "Op e = OpGroup" | "Op e = OpGroupWithFlags" | "Op e = OpFlagOnlyGroup"
    | "Op e = OpPlus" | "Op e = OpStar" | "Op e = OpQuestion" | "Op e = OpNonGreedy"
    | "Op e \<notin> handledOps"
    unfolding handledOps_def verbatimOps_def by blast
  then show ?thesis
  proof cases
    case 1
    then show ?thesis
      by (auto simp: fmt_CharLiteral rule_of_def brace_quote_def split: sum.splits)
  next
    case 2
    then have "rule_of (Op e) = RText"
      by (auto simp: rule_of_def verbatimOps_def Op_defs)
    with 2 show ?thesis by (simp add: fmt_verbatim)
  next
    case 22
    then have "rule_of (Op e) = RDefault"
      by (simp add: rule_of_def handledOps_def verbatimOps_def)
    with 22 show ?thesis by (simp add: fmt_default)
  qed (simp_all add: rule_of_def verbatimOps_def Op_defs fmt_Repeat fmt_Caret fmt_Dollar fmt_Dot
        fmt_Quote fmt_CharRange fmt_CharClass fmt_NegCharClass fmt_Concat fmt_Alt fmt_Capture
        fmt_NamedCapture fmt_Group fmt_GroupWithFlags fmt_FlagOnlyGroup fmt_Plus fmt_Star
        fmt_Question fmt_NonGreedy)
qed

lemma min_arity_rule:
  "min_arity op = (case rule_of op of RRange \<Rightarrow> 2 | RBinary pre \<Rightarrow> 2 | RUnary pre \<Rightarrow> 1 | _ \<Rightarrow> 0)"
  by (simp add: min_arity_def rule_of_def verbatimOps_def Op_defs)

lemma index_Inr: "index xs i = Inr a \<Longrightarrow> a \<in> set xs"
  by (auto simp: index_def split: if_splits)

lemma index_Inl: "index xs i = Inl p \<Longrightarrow> p = IndexOutOfRange \<and> \<not> (0 \<le> i \<and> i < int (length xs))"
  by (auto simp: index_def split: if_splits)

lemma index_0: "1 \<le> length xs \<Longrightarrow> index xs 0 = Inr (xs ! 0)"
  by (cases xs) (simp_all add: index_def)

lemma index_1: "2 \<le> length xs \<Longrightarrow> index xs 1 = Inr (xs ! 1)"
  by (simp add: index_def)

lemma formatParts_ok:
  "\<forall>a\<in>set es. \<exists>s. formatExprSyntax re a = Inr s \<Longrightarrow> \<exists>ss. formatParts re es = Inr ss"
  by (induction es) auto

lemma formatParts_Inl:
  "formatParts re es = Inl p \<Longrightarrow> \<exists>a\<in>set es. formatExprSyntax re a = Inl p"
  by (induction es) (auto split: sum.splits)

lemma formatArgs_ok:
  "\<forall>a\<in>set es. \<exists>s. formatExprSyntax re a = Inr s \<Longrightarrow> \<exists>s. formatArgsSyntax re es = Inr s"
  using formatParts_ok [of es re] by (auto simp: formatArgsSyntax.simps)

lemma formatArgs_Inl:
  "formatArgsSyntax re es = Inl p \<Longrightarrow> \<exists>a\<in>set es. formatExprSyntax re a = Inl p"
  using formatParts_Inl [of re es p] by (auto simp: formatArgsSyntax.simps split: sum.splits)

lemma spans_ok_span: "spans_ok re e \<Longrightarrow> span_ok re e"
  by (cases e) simp

lemma spans_ok_arg: "spans_ok re e \<Longrightarrow> a \<in> set (Args e) \<Longrightarrow> spans_ok re a"
  by (cases e) (simp add: list_all_iff)

lemma arity_ok_arg: "arity_ok e \<Longrightarrow> a \<in> set (Args e) \<Longrightarrow> arity_ok a"
  by (cases e) (simp add: list_all_iff)

lemma arity_ok_min: "arity_ok e \<Longrightarrow> min_arity (Op e) \<le> length (Args e)"
  by (cases e) simp

lemma format_returns:
  "spans_ok re e \<Longrightarrow> arity_ok e \<Longrightarrow> \<exists>s. formatExprSyntax re e = Inr s"
proof (induction e)
  case (MkExpr pos op args)
  let ?e = "MkExpr pos op args"
  have kids: "\<forall>a\<in>set args. \<exists>s. formatExprSyntax re a = Inr s"
    using MkExpr by (auto simp: list_all_iff)
  have own: "ExprString re ?e = Inr (span_text re ?e)"
    using MkExpr.prems by (simp add: ExprString_ok)
  have argtext: "\<And>a. a \<in> set args \<Longrightarrow> ExprString re a = Inr (span_text re a)"
    using MkExpr.prems(1) spans_ok_arg [of re ?e] by (simp add: ExprString_ok spans_ok_span)
  have ar: "min_arity op \<le> length args"
    using MkExpr.prems(2) by simp
  show ?case
  proof (cases "rule_of op")
    case (RArgList pre post)
    then show ?thesis
      using formatArgs_ok [OF kids] by (subst formatExprSyntax_rule) auto
  next
    case RRange
    with ar have "2 \<le> length args" by (simp add: min_arity_rule)
    then have i: "index args 0 = Inr (args ! 0)" "index args 1 = Inr (args ! 1)"
      and m: "args ! 0 \<in> set args" "args ! 1 \<in> set args"
      by (auto simp: index_def intro!: nth_mem)
    from m kids obtain s0 s1 where "formatExprSyntax re (args ! 0) = Inr s0"
      "formatExprSyntax re (args ! 1) = Inr s1" by blast
    with RRange i show ?thesis
      by (subst formatExprSyntax_rule) simp
  next
    case (RUnary pre)
    with ar have "1 \<le> length args" by (simp add: min_arity_rule)
    then have i: "index args 0 = Inr (args ! 0)" and m: "args ! 0 \<in> set args"
      by (auto simp: index_def intro!: nth_mem)
    from m kids obtain s0 where "formatExprSyntax re (args ! 0) = Inr s0" by blast
    with RUnary i show ?thesis
      by (subst formatExprSyntax_rule) simp
  next
    case (RBinary pre)
    with ar have "2 \<le> length args" by (simp add: min_arity_rule)
    then have i: "index args 0 = Inr (args ! 0)" "index args 1 = Inr (args ! 1)"
      and m: "args ! 0 \<in> set args" "args ! 1 \<in> set args"
      by (auto simp: index_def intro!: nth_mem)
    from m kids obtain s0 where "formatExprSyntax re (args ! 0) = Inr s0" by blast
    with RBinary i argtext [OF m(2)] show ?thesis
      by (subst formatExprSyntax_rule) simp
  qed (subst formatExprSyntax_rule, simp add: own)+
qed

lemma format_panic:
  "spans_ok re e \<Longrightarrow> formatExprSyntax re e = Inl p \<Longrightarrow> p = IndexOutOfRange"
proof (induction e)
  case (MkExpr pos op args)
  let ?e = "MkExpr pos op args"
  have kids: "\<And>a. a \<in> set args \<Longrightarrow> formatExprSyntax re a = Inl p \<Longrightarrow> p = IndexOutOfRange"
    using MkExpr by (auto simp: list_all_iff)
  have own: "ExprString re ?e = Inr (span_text re ?e)"
    using MkExpr.prems by (simp add: ExprString_ok)
  have argtext: "\<And>a. a \<in> set args \<Longrightarrow> ExprString re a = Inr (span_text re a)"
    using MkExpr.prems(1) spans_ok_arg [of re ?e] by (simp add: ExprString_ok spans_ok_span)
  have arg_ok: "\<And>i a q. index args i = Inr a \<Longrightarrow> ExprString re a \<noteq> Inl q"
    using argtext index_Inr by fastforce
  have kid: "\<And>i a. index args i = Inr a \<Longrightarrow> formatExprSyntax re a = Inl p \<Longrightarrow> p = IndexOutOfRange"
    by (rule kids [OF index_Inr])
  from MkExpr.prems(2) show ?case
    by (subst (asm) formatExprSyntax_rule)
      (auto simp: own arg_ok split: rule.splits sum.splits
        dest!: formatArgs_Inl index_Inl dest: kids kid)
qed

text \<open>
  C5. On a tree in which every node has at least the arguments its case indexes (two for
  \<^verbatim>\<open>Repeat\<close>, \<^verbatim>\<open>CharRange\<close>, \<^verbatim>\<open>NamedCapture\<close>, \<^verbatim>\<open>GroupWithFlags\<close>; one for
  \<^verbatim>\<open>Star\<close>, \<^verbatim>\<open>Plus\<close>, \<^verbatim>\<open>Question\<close>, \<^verbatim>\<open>NonGreedy\<close>, \<^verbatim>\<open>Capture\<close>, \<^verbatim>\<open>Group\<close>,
  \<^verbatim>\<open>FlagOnlyGroup\<close>) and every node's span satisfies \<open>Begin \<le> End \<le> len(Source)\<close>,
  \<^verbatim>\<open>FormatSyntax\<close> returns a string without a panic; with all spans in range, a
  panic is an index out of range and occurs only in a tree with a node that has fewer
  arguments than its case indexes.
\<close>

theorem format_safe:
  assumes "spans_ok re (Expr re)"
  shows "(arity_ok (Expr re) \<longrightarrow> (\<exists>s. FormatSyntax re = Inr s))
       \<and> (\<forall>p. FormatSyntax re = Inl p \<longrightarrow> p = IndexOutOfRange \<and> \<not> arity_ok (Expr re))"
  using assms format_returns [of re "Expr re"] format_panic [of re "Expr re"]
  by (auto simp: FormatSyntax_def)


theorem format_safe_witness:
  "spans_ok
     \<lparr>Source = ''x{3,5}'', Expr = MkExpr \<lparr>Begin = 0, End = 6\<rparr> OpRepeat
        [MkExpr \<lparr>Begin = 0, End = 1\<rparr> OpLiteral [], MkExpr \<lparr>Begin = 2, End = 5\<rparr> OpString []]\<rparr>
     (MkExpr \<lparr>Begin = 0, End = 6\<rparr> OpRepeat
        [MkExpr \<lparr>Begin = 0, End = 1\<rparr> OpLiteral [], MkExpr \<lparr>Begin = 2, End = 5\<rparr> OpString []])
   \<and> arity_ok (MkExpr \<lparr>Begin = 0, End = 6\<rparr> OpRepeat
        [MkExpr \<lparr>Begin = 0, End = 1\<rparr> OpLiteral [], MkExpr \<lparr>Begin = 2, End = 5\<rparr> OpString []])
   \<and> (\<exists>s. FormatSyntax
     \<lparr>Source = ''x{3,5}'', Expr = MkExpr \<lparr>Begin = 0, End = 6\<rparr> OpRepeat
        [MkExpr \<lparr>Begin = 0, End = 1\<rparr> OpLiteral [], MkExpr \<lparr>Begin = 2, End = 5\<rparr> OpString []]\<rparr>
       = Inr s)
   \<and> spans_ok
     \<lparr>Source = ''x{3,5}'', Expr = MkExpr \<lparr>Begin = 0, End = 6\<rparr> OpRepeat
        [MkExpr \<lparr>Begin = 0, End = 1\<rparr> OpLiteral []]\<rparr>
     (MkExpr \<lparr>Begin = 0, End = 6\<rparr> OpRepeat [MkExpr \<lparr>Begin = 0, End = 1\<rparr> OpLiteral []])
   \<and> FormatSyntax
     \<lparr>Source = ''x{3,5}'', Expr = MkExpr \<lparr>Begin = 0, End = 6\<rparr> OpRepeat
        [MkExpr \<lparr>Begin = 0, End = 1\<rparr> OpLiteral []]\<rparr> = Inl IndexOutOfRange
   \<and> \<not> arity_ok (MkExpr \<lparr>Begin = 0, End = 6\<rparr> OpRepeat
        [MkExpr \<lparr>Begin = 0, End = 1\<rparr> OpLiteral []])"
  using format_safe [of "\<lparr>Source = ''x{3,5}'', Expr = MkExpr \<lparr>Begin = 0, End = 6\<rparr> OpRepeat
        [MkExpr \<lparr>Begin = 0, End = 1\<rparr> OpLiteral [], MkExpr \<lparr>Begin = 2, End = 5\<rparr> OpString []]\<rparr>"]
    format_safe [of "\<lparr>Source = ''x{3,5}'', Expr = MkExpr \<lparr>Begin = 0, End = 6\<rparr> OpRepeat
        [MkExpr \<lparr>Begin = 0, End = 1\<rparr> OpLiteral []]\<rparr>"]
  by (simp add: span_ok_def ExprBegin_def ExprEnd_def min_arity_def Op_defs FormatSyntax_def
      fmt_Repeat [unfolded OpRepeat_def] fmt_CharLiteral [unfolded Op_defs] index_def
      ExprString_def slice_def)


section \<open>Injectivity\<close>

lemma skel_render:
  "skeleton re e = Some k \<Longrightarrow> formatExprSyntax re e = Inr (render k)"
  "skeletons re es = Some ks \<Longrightarrow> formatParts re es = Inr (map render ks)"
proof (induction re e and re es arbitrary: k and ks rule: skeleton_skeletons.induct)
  case (1 re e)
  note sk = "1.prems" [unfolded skeleton.simps [of re e]]
  show ?case
  proof (cases "rule_of (Op e)")
    case RRange
    with sk obtain a0 k0 a1 k1 where i: "index (Args e) 0 = Inr a0" "index (Args e) 1 = Inr a1"
      and s: "skeleton re a0 = Some k0" "skeleton re a1 = Some k1" and k: "k = SRange k0 k1"
      by (auto split: sum.splits option.splits)
    have "formatExprSyntax re a0 = Inr (render k0)"
      using "1.IH"(1) [OF RRange i(1) s(1)] .
    moreover have "formatExprSyntax re a1 = Inr (render k1)"
      using "1.IH"(2) [OF RRange i(1) s(1) i(2) s(2)] .
    ultimately show ?thesis
      using RRange i k by (subst formatExprSyntax_rule) simp
  next
    case (RUnary pre)
    with sk obtain a0 k0 where i: "index (Args e) 0 = Inr a0"
      and s: "skeleton re a0 = Some k0" and k: "k = SUnary pre k0"
      by (auto split: sum.splits option.splits)
    have "formatExprSyntax re a0 = Inr (render k0)"
      using "1.IH"(3) [OF RUnary i s] .
    then show ?thesis
      using RUnary i k by (subst formatExprSyntax_rule) simp
  next
    case (RBinary pre)
    with sk obtain a0 k0 a1 s1 where i: "index (Args e) 0 = Inr a0" "index (Args e) 1 = Inr a1"
      and s: "skeleton re a0 = Some k0" "ExprString re a1 = Inr s1" and k: "k = SBinary pre k0 s1"
      by (auto split: sum.splits option.splits)
    have "formatExprSyntax re a0 = Inr (render k0)"
      using "1.IH"(4) [OF RBinary i(1) s(1)] .
    then show ?thesis
      using RBinary i s k by (subst formatExprSyntax_rule) simp
  next
    case (RArgList pre post)
    with sk obtain ks where s: "skeletons re (Args e) = Some ks" and k: "k = SList pre post ks"
      by (auto split: option.splits)
    have "formatParts re (Args e) = Inr (map render ks)"
      using "1.IH"(5) [OF RArgList s] .
    then show ?thesis
      using RArgList k by (subst formatExprSyntax_rule) (simp add: formatArgsSyntax.simps)
  qed (use sk in \<open>subst formatExprSyntax_rule,
        auto split: sum.splits if_splits simp: brace_quote_def\<close>)+
next
  case (2 re)
  then show ?case by simp
next
  case (3 re e es)
  then show ?case by (auto split: option.splits)
qed

lemma split_unique:
  "list_all P u \<Longrightarrow> list_all P v \<Longrightarrow>
   (case r of [] \<Rightarrow> True | c # _ \<Rightarrow> \<not> P c) \<Longrightarrow> (case r' of [] \<Rightarrow> True | c # _ \<Rightarrow> \<not> P c) \<Longrightarrow>
   u @ r = v @ r' \<Longrightarrow> u = v \<and> r = r'"
proof (induction u arbitrary: v)
  case Nil
  show ?case
  proof (cases v)
    case Nil
    with Nil.prems show ?thesis by simp
  next
    case (Cons b v')
    with Nil.prems show ?thesis by simp
  qed
next
  case (Cons a u)
  show ?case
  proof (cases v)
    case Nil
    with Cons.prems show ?thesis by auto
  next
    case (Cons b v')
    with Cons.prems have "list_all P u" "list_all P v'" "u @ r = v' @ r'" "a = b"
      by simp_all
    with Cons.IH [of v'] Cons.prems(3,4) Cons show ?thesis by simp
  qed
qed

lemma render_head:
  "good k \<Longrightarrow> \<exists>c cs. render k = c # cs \<and> \<not> stop c \<and> char_cls c = cls k"
proof (induction k)
  case (SText t)
  then obtain c cs where "t = c # cs" by (cases t) (simp_all add: token_def)
  with SText show ?case
    by (simp add: token_def inner_def char_cls_def)
next
  case (SBrace c)
  show ?case by (simp add: stop_def char_cls_def)
next
  case (SSym s)
  then consider "s = ''^''" | "s = ''$''" | "s = ''.''" by auto
  then show ?case by cases (simp_all add: stop_def char_cls_def)
next
  case (SQuote t)
  show ?case by (simp add: stop_def char_cls_def)
next
  case (SRange a b)
  then have "good a" by simp
  with SRange.IH(1) obtain c cs where "render a = c # cs" "\<not> stop c" "char_cls c = cls a"
    by blast
  then show ?case by simp
next
  case (SUnary pre a)
  then have "unary_pre pre" by simp
  then obtain cs where "pre = CHR ''('' # cs"
    unfolding unary_pre_def by auto
  then show ?case by (simp add: stop_def char_cls_def)
next
  case (SBinary pre a t)
  then have "binary_pre pre" by simp
  then obtain cs where "pre = CHR ''('' # cs"
    unfolding binary_pre_def by auto
  then show ?case by (simp add: stop_def char_cls_def)
next
  case (SList pre post ks)
  then have "list_pre pre post" by simp
  then consider "pre = ''[''" | "pre = ''[^''" | "pre = ''{''" | "pre = ''(or ''"
    unfolding list_pre_def by auto
  then show ?case by cases (simp_all add: stop_def char_cls_def)
next
  case (SDefault d)
  show ?case by (simp add: stop_def char_cls_def)
qed

lemma stops_brk: "stops r \<Longrightarrow> brk r"
  by (cases r) (simp_all add: stops_def brk_def inner_def)

lemma stops_Cons [simp]: "stops (c # r) = stop c"
  by (simp add: stops_def)

lemma char_unique:
  assumes "c \<notin> set t1" and "c \<notin> set t2" and "t1 @ c # r1 = t2 @ c # r2"
  shows "t1 = t2 \<and> r1 = r2"
proof -
  have "list_all (\<lambda>x. x \<noteq> c) t1" "list_all (\<lambda>x. x \<noteq> c) t2"
    using assms(1,2) by (auto simp: list_all_iff)
  from split_unique [OF this _ _ assms(3)] show ?thesis by simp
qed

lemma leaf_unique:
  assumes "leaf k1" "good k1" "leaf k2" "good k2"
    and eq: "render k1 @ r1 = render k2 @ r2" and "brk r1" "brk r2"
  shows "k1 = k2 \<and> r1 = r2"
proof -
  have tb: False if "token t" "t @ r = CHR 0x27 # x" for t r x
  proof -
    from that(1) obtain c cs where "t = c # cs" "c \<noteq> CHR 0x27"
      by (cases t) (simp_all add: token_def)
    with that(2) show False by simp
  qed
  from assms(1) show ?thesis
  proof (cases k1 rule: leaf.cases)
    case (1 t1)
    from assms(3) show ?thesis
    proof (cases k2 rule: leaf.cases)
      case (1 t2)
      with \<open>k1 = SText t1\<close> assms have "list_all inner t1" "list_all inner t2" "t1 @ r1 = t2 @ r2"
        by (simp_all add: token_def)
      from split_unique [OF this(1,2) _ _ this(3)] assms(6,7) 1 \<open>k1 = SText t1\<close>
      show ?thesis by (simp add: brk_def)
    next
      case (2 c)
      with \<open>k1 = SText t1\<close> assms(2) eq tb [of t1 r1] show ?thesis by simp
    qed (use assms(3) in simp_all)
  next
    case (2 c1)
    from assms(3) show ?thesis
    proof (cases k2 rule: leaf.cases)
      case (1 t2)
      with \<open>k1 = SBrace c1\<close> assms(4) eq [symmetric] tb [of t2 r2] show ?thesis by simp
    next
      case (2 c2)
      with \<open>k1 = SBrace c1\<close> eq show ?thesis by simp
    qed (use assms(3) in simp_all)
  qed (use assms(1) in simp_all)
qed

lemma Join_Cons: "Join (x # xs) sep = (if xs = [] then x else x @ sep @ Join xs sep)"
  by (cases xs) simp_all

lemma cls_leaf: "leaf a \<Longrightarrow> cls a = 0 \<or> cls a = 1"
  by (cases a rule: leaf.cases) simp_all

lemma cls_list: "list_pre pre post \<Longrightarrow> cls (SList pre post ks) \<in> {3, 4, 5}"
  unfolding list_pre_def by auto

lemma render_caret:
  assumes "good k" and "render k = CHR ''^'' # cs"
  shows "k = SSym ''^''"
proof -
  from render_head [OF assms(1)] assms(2) have c: "cls k = 2"
    by (auto simp: char_cls_def)
  show ?thesis
  proof (cases k)
    case (SSym s)
    with assms show ?thesis by auto
  next
    case (SRange a b)
    with assms(1) c cls_leaf [of a] show ?thesis by simp
  next
    case (SList pre post ks)
    with assms(1) c cls_list [of pre post ks] show ?thesis by simp
  qed (use c in simp_all)
qed

lemma join_unique:
  assumes IH: "\<And>k k2 r1 r2. k \<in> set ks1 \<Longrightarrow> good k \<Longrightarrow> good k2 \<Longrightarrow>
      render k @ r1 = render k2 @ r2 \<Longrightarrow> stops r1 \<Longrightarrow> stops r2 \<Longrightarrow> k = k2 \<and> r1 = r2"
    and "list_all good ks1" and "list_all good ks2"
    and "Join (map render ks1) '' '' @ c1 # r1 = Join (map render ks2) '' '' @ c2 # r2"
    and "stop c1" "c1 \<noteq> CHR '' ''" "stop c2" "c2 \<noteq> CHR '' ''"
  shows "ks1 = ks2 \<and> c1 # r1 = c2 # r2"
  using assms
proof (induction ks1 arbitrary: ks2)
  case Nil
  show ?case
  proof (cases ks2)
    case Nil
    with Nil.prems show ?thesis by simp
  next
    case (Cons k ks)
    with Nil.prems have "good k" by simp
    from render_head [OF this] obtain c cs where "render k = c # cs" "\<not> stop c" by blast
    with Nil.prems(4,5) Cons show ?thesis by (simp add: Join_Cons split: if_splits)
  qed
next
  case (Cons k1 ks1')
  from Cons.prems(2) have g1: "good k1" "list_all good ks1'" by simp_all
  show ?case
  proof (cases ks2)
    case Nil
    from render_head [OF g1(1)] obtain c cs where "render k1 = c # cs" "\<not> stop c" by blast
    with Cons.prems(4,7) Nil show ?thesis by (simp add: Join_Cons split: if_splits)
  next
    case (Cons k2 ks2')
    with Cons.prems(3) have g2: "good k2" "list_all good ks2'" by simp_all
    define rest1 where "rest1 =
      (if ks1' = [] then c1 # r1 else CHR '' '' # Join (map render ks1') '' '' @ c1 # r1)"
    define rest2 where "rest2 =
      (if ks2' = [] then c2 # r2 else CHR '' '' # Join (map render ks2') '' '' @ c2 # r2)"
    have eq: "render k1 @ rest1 = render k2 @ rest2"
      using Cons.prems(4) Cons by (auto simp: Join_Cons rest1_def rest2_def split: if_splits)
    have st: "stops rest1" "stops rest2"
      using Cons.prems(5,7) by (simp_all add: rest1_def rest2_def stop_def)
    from Cons.prems(1) [OF _ g1(1) g2(1) eq st] have k: "k1 = k2" and r: "rest1 = rest2"
      by simp_all
    show ?thesis
    proof (cases "ks1' = []")
      case True
      with r Cons.prems(6) have "ks2' = []" "c1 # r1 = c2 # r2"
        by (auto simp: rest1_def rest2_def split: if_splits)
      with True k Cons show ?thesis by simp
    next
      case False
      with r Cons.prems(8) have ne: "ks2' \<noteq> []"
        and j: "Join (map render ks1') '' '' @ c1 # r1 = Join (map render ks2') '' '' @ c2 # r2"
        by (auto simp: rest1_def rest2_def split: if_splits)
      have "ks1' = ks2' \<and> c1 # r1 = c2 # r2"
      proof (rule Cons.IH [OF _ g1(2) g2(2) j Cons.prems(5,6,7,8)])
        fix k k2 r1 r2
        assume "k \<in> set ks1'" "good k" "good k2" "render k @ r1 = render k2 @ r2"
          "stops r1" "stops r2"
        then show "k = k2 \<and> r1 = r2"
          using Cons.prems(1) [of k k2 r1 r2] by simp
      qed
      with k Cons show ?thesis by simp
    qed
  qed
qed

lemma paren_kw:
  assumes "paren_pre p"
  shows "p = CHR ''('' # butlast (tl p) @ '' '' \<and> CHR '' '' \<notin> set (butlast (tl p))"
proof -
  from assms consider "p = ''(q ''" | "p = ''(or ''" | "p = ''(capture ''" | "p = ''(group ''"
    | "p = ''(flags ''" | "p = ''(+ ''" | "p = ''(* ''" | "p = ''(? ''" | "p = ''(non-greedy ''"
    | "p = ''(repeat ''"
    unfolding paren_pre_def unary_pre_def binary_pre_def by fastforce
  then show ?thesis by cases simp_all
qed

lemma paren_code:
  assumes "paren_pre p1" and "paren_pre p2" and "p1 @ x = p2 @ y"
  shows "p1 = p2 \<and> x = y"
proof -
  define k1 where "k1 = butlast (tl p1)"
  define k2 where "k2 = butlast (tl p2)"
  from paren_kw [OF assms(1)] have p1: "p1 = CHR ''('' # k1 @ '' ''" "CHR '' '' \<notin> set k1"
    by (simp_all add: k1_def)
  from paren_kw [OF assms(2)] have p2: "p2 = CHR ''('' # k2 @ '' ''" "CHR '' '' \<notin> set k2"
    by (simp_all add: k2_def)
  from assms(3) have "k1 @ CHR '' '' # x = k2 @ CHR '' '' # y"
    by (subst (asm) p1(1), subst (asm) p2(1)) simp
  from char_unique [OF p1(2) p2(2) this] p1(1) p2(1) show ?thesis by simp
qed

lemma not_unary [simp]: "\<not> unary_pre ''(q ''" "\<not> unary_pre ''(or ''"
  by (simp_all add: unary_pre_def)

lemma not_binary [simp]: "\<not> binary_pre ''(q ''" "\<not> binary_pre ''(or ''"
  by (simp_all add: binary_pre_def)

lemma same_cls:
  assumes "good k1" and "good k2" and "render k1 @ r1 = render k2 @ r2"
  shows "cls k1 = cls k2"
proof -
  from render_head [OF assms(1)] obtain c1 cs1 where 1: "render k1 = c1 # cs1" "char_cls c1 = cls k1"
    by blast
  from render_head [OF assms(2)] obtain c2 cs2 where 2: "render k2 = c2 # cs2" "char_cls c2 = cls k2"
    by blast
  from assms(3) 1(1) 2(1) have "c1 = c2" by simp
  with 1(2) 2(2) show ?thesis by simp
qed

lemma list_pre_cases:
  assumes "list_pre pre post"
  obtains "pre = ''[''" "post = '']''" | "pre = ''[^''" "post = '']''"
    | "pre = ''{''" "post = ''}''" | "pre = ''(or ''" "post = '')''"
  using assms unfolding list_pre_def by auto

lemma cls_atom:
  assumes "good k" and "cls k \<le> 1"
  shows "leaf k \<or> (\<exists>a b. k = SRange a b)"
proof (cases k)
  case (SList pre post ks)
  with assms(1) have "list_pre pre post" by simp
  then show ?thesis using assms(2) SList by (cases rule: list_pre_cases) simp_all
qed (use assms in simp_all)

lemma cls_sym:
  assumes "good k" and "cls k = 2"
  shows "\<exists>s. k = SSym s"
proof (cases k)
  case (SRange a b)
  with assms cls_leaf [of a] show ?thesis by simp
next
  case (SList pre post ks)
  with assms(1) have "list_pre pre post" by simp
  then show ?thesis using assms(2) SList by (cases rule: list_pre_cases) simp_all
qed (use assms in simp_all)

lemma cls_paren:
  assumes "good k" and "cls k = 3"
  obtains t where "k = SQuote t" | pre a where "k = SUnary pre a"
    | pre a t where "k = SBinary pre a t" | ks where "k = SList ''(or '' '')'' ks"
proof (cases k)
  case (SRange a b)
  with assms cls_leaf [of a] show ?thesis by simp
next
  case (SList pre post ks)
  with assms(1) have "list_pre pre post" by simp
  then show ?thesis using assms(2) SList that(4) by (cases rule: list_pre_cases) simp_all
qed (use assms that in simp_all)

lemma cls_bracket:
  assumes "good k" and "cls k = 4"
  obtains ks where "k = SList ''['' '']'' ks" | ks where "k = SList ''[^'' '']'' ks"
proof (cases k)
  case (SRange a b)
  with assms cls_leaf [of a] show ?thesis by simp
next
  case (SList pre post ks)
  with assms(1) have "list_pre pre post" by simp
  then show ?thesis using assms(2) SList that by (cases rule: list_pre_cases) simp_all
qed (use assms that in simp_all)

lemma cls_brace:
  assumes "good k" and "cls k = 5"
  obtains ks where "k = SList ''{'' ''}'' ks"
proof (cases k)
  case (SRange a b)
  with assms cls_leaf [of a] show ?thesis by simp
next
  case (SList pre post ks)
  with assms(1) have "list_pre pre post" by simp
  then show ?thesis using assms(2) SList that by (cases rule: list_pre_cases) simp_all
qed (use assms that in simp_all)

lemma cls_default:
  assumes "good k" and "cls k = 6"
  shows "\<exists>d. k = SDefault d"
proof (cases k)
  case (SRange a b)
  with assms cls_leaf [of a] show ?thesis by simp
next
  case (SList pre post ks)
  with assms(1) have "list_pre pre post" by simp
  then show ?thesis using assms(2) SList by (cases rule: list_pre_cases) simp_all
qed (use assms in simp_all)

lemma leaf_vs_range:
  assumes "leaf k" "good k" "good (SRange a b)"
    and "render k @ r1 = render (SRange a b) @ r2" and "stops r1"
  shows False
proof -
  from assms(3) have a: "leaf a" "good a" by simp_all
  have "brk (CHR ''-'' # render b @ r2)" by (simp add: brk_def inner_def)
  from leaf_unique [OF assms(1,2) a _ stops_brk [OF assms(5)] this] assms(4)
  have "r1 = CHR ''-'' # render b @ r2" by simp
  with assms(5) show False by (simp add: stop_def)
qed

lemma leaf_case:
  assumes "leaf k1" "good k1" "good k2"
    and eq: "render k1 @ r1 = render k2 @ r2" and "stops r1" "stops r2"
  shows "k1 = k2 \<and> r1 = r2"
proof -
  from cls_leaf [OF assms(1)] same_cls [OF assms(2,3) eq] have "cls k2 \<le> 1" by auto
  from cls_atom [OF assms(3) this] show ?thesis
  proof
    assume "leaf k2"
    from leaf_unique [OF assms(1,2) this assms(3) eq stops_brk [OF assms(5)]
        stops_brk [OF assms(6)]]
    show ?thesis .
  next
    assume "\<exists>a b. k2 = SRange a b"
    then obtain a b where "k2 = SRange a b" by blast
    with leaf_vs_range [OF assms(1,2) _ _ assms(5)] assms(3) eq show ?thesis by blast
  qed
qed

lemma range_case:
  assumes "good (SRange a b)" "good k2"
    and eq: "render (SRange a b) @ r1 = render k2 @ r2" and "stops r1" "stops r2"
  shows "SRange a b = k2 \<and> r1 = r2"
proof -
  from assms(1) have a: "leaf a" "good a" and b: "leaf b" "good b" by simp_all
  from cls_leaf [OF a(1)] same_cls [OF assms(1,2) eq] have "cls k2 \<le> 1" by auto
  from cls_atom [OF assms(2) this] show ?thesis
  proof
    assume "leaf k2"
    from leaf_vs_range [OF this assms(2,1) eq [symmetric] assms(5)] show ?thesis ..
  next
    assume "\<exists>a b. k2 = SRange a b"
    then obtain a' b' where k2: "k2 = SRange a' b'" by blast
    with assms(2) have a': "leaf a'" "good a'" and b': "leaf b'" "good b'" by simp_all
    from eq k2 have e1: "render a @ (CHR ''-'' # render b @ r1) = render a' @ (CHR ''-'' # render b' @ r2)"
      by simp
    have "brk (CHR ''-'' # render b @ r1)" "brk (CHR ''-'' # render b' @ r2)"
      by (simp_all add: brk_def inner_def)
    from leaf_unique [OF a a' e1 this] have aa: "a = a'" and e2: "render b @ r1 = render b' @ r2"
      by simp_all
    from leaf_unique [OF b b' e2 stops_brk [OF assms(4)] stops_brk [OF assms(5)]] aa k2
    show ?thesis by simp
  qed
qed

lemma sym_case:
  assumes "good (SSym s)" "good k2"
    and eq: "render (SSym s) @ r1 = render k2 @ r2"
  shows "SSym s = k2 \<and> r1 = r2"
proof -
  from same_cls [OF assms(1,2) eq] have "cls k2 = 2" by simp
  from cls_sym [OF assms(2) this] obtain s2 where k2: "k2 = SSym s2" by blast
  from assms(1) consider "s = ''^''" | "s = ''$''" | "s = ''.''" by auto
  then show ?thesis
  proof cases
    case 1
    from assms(2) k2 consider "s2 = ''^''" | "s2 = ''$''" | "s2 = ''.''" by auto
    then show ?thesis using 1 eq k2 by cases simp_all
  next
    case 2
    from assms(2) k2 consider "s2 = ''^''" | "s2 = ''$''" | "s2 = ''.''" by auto
    then show ?thesis using 2 eq k2 by cases simp_all
  next
    case 3
    from assms(2) k2 consider "s2 = ''^''" | "s2 = ''$''" | "s2 = ''.''" by auto
    then show ?thesis using 3 eq k2 by cases simp_all
  qed
qed

lemma default_case:
  assumes "good (SDefault d)" "good k2"
    and eq: "render (SDefault d) @ r1 = render k2 @ r2"
  shows "SDefault d = k2 \<and> r1 = r2"
proof -
  from same_cls [OF assms(1,2) eq] have "cls k2 = 6" by simp
  from cls_default [OF assms(2) this] obtain d2 where k2: "k2 = SDefault d2" by blast
  with assms have "CHR ''>'' \<notin> set d" "CHR ''>'' \<notin> set d2" "d @ CHR ''>'' # r1 = d2 @ CHR ''>'' # r2"
    by simp_all
  from char_unique [OF this] k2 show ?thesis by simp
qed

lemma paren_split:
  assumes "good k" and "cls k = 3"
  shows "render k = ppre k @ pbody k \<and> paren_pre (ppre k)"
proof (rule cls_paren [OF assms])
  fix t assume "k = SQuote t"
  then show ?thesis by (simp add: paren_pre_def)
next
  fix pre a assume "k = SUnary pre a"
  with assms(1) show ?thesis by (simp add: paren_pre_def)
next
  fix pre a t assume "k = SBinary pre a t"
  with assms(1) show ?thesis by (simp add: paren_pre_def)
next
  fix ks assume "k = SList ''(or '' '')'' ks"
  then show ?thesis by (simp add: paren_pre_def)
qed

lemma paren_eq:
  assumes "good k1" "cls k1 = 3" "good k2"
    and eq: "render k1 @ r1 = render k2 @ r2"
  shows "ppre k1 = ppre k2 \<and> pbody k1 @ r1 = pbody k2 @ r2"
proof -
  from same_cls [OF assms(1,3) eq] assms(2) have c2: "cls k2 = 3" by simp
  note s1 = paren_split [OF assms(1,2)] and s2 = paren_split [OF assms(3) c2]
  from eq s1 s2 have "ppre k1 @ (pbody k1 @ r1) = ppre k2 @ (pbody k2 @ r2)" by simp
  from paren_code [OF _ _ this] s1 s2 show ?thesis by simp
qed

lemma quote_case:
  assumes g1: "good (SQuote t)" and g2: "good k2"
    and eq: "render (SQuote t) @ r1 = render k2 @ r2"
  shows "SQuote t = k2 \<and> r1 = r2"
proof -
  from same_cls [OF g1 g2 eq] have c2: "cls k2 = 3" by simp
  from paren_eq [OF g1 _ g2 eq]
  have p: "ppre k2 = ''(q ''" and b: "t @ CHR '')'' # r1 = pbody k2 @ r2" by simp_all
  from g2 c2 show ?thesis
  proof (cases k2 rule: cls_paren)
    case (1 t2)
    with g1 g2 b have "CHR '')'' \<notin> set t" "CHR '')'' \<notin> set t2"
      "t @ CHR '')'' # r1 = t2 @ CHR '')'' # r2" by simp_all
    from char_unique [OF this] 1 show ?thesis by simp
  next
    case (2 pre a)
    with p have "pre = ''(q ''" by simp
    with g2 2 show ?thesis by simp
  next
    case (3 pre a t)
    with p have "pre = ''(q ''" by simp
    with g2 3 show ?thesis by simp
  next
    case (4 ks)
    with p show ?thesis by simp
  qed
qed

lemma unary_case:
  assumes IH: "\<And>k2 r1 r2. good a \<Longrightarrow> good k2 \<Longrightarrow> render a @ r1 = render k2 @ r2 \<Longrightarrow>
      stops r1 \<Longrightarrow> stops r2 \<Longrightarrow> a = k2 \<and> r1 = r2"
    and g1: "good (SUnary pre a)" and g2: "good k2"
    and eq: "render (SUnary pre a) @ r1 = render k2 @ r2"
  shows "SUnary pre a = k2 \<and> r1 = r2"
proof -
  from g1 have g: "unary_pre pre" "good a" by simp_all
  from same_cls [OF g1 g2 eq] have c2: "cls k2 = 3" by simp
  from paren_eq [OF g1 _ g2 eq]
  have p: "ppre k2 = pre" and b: "render a @ CHR '')'' # r1 = pbody k2 @ r2" by simp_all
  have st: "stops (CHR '')'' # r)" "stops (CHR '' '' # r)" for r
    by (simp_all add: stop_def)
  from g2 c2 show ?thesis
  proof (cases k2 rule: cls_paren)
    case (1 t2)
    with p have "pre = ''(q ''" by simp
    with g(1) show ?thesis by simp
  next
    case (2 pre2 a2)
    with g2 b have "good a2" "render a @ CHR '')'' # r1 = render a2 @ CHR '')'' # r2"
      by simp_all
    from IH [OF g(2) this st(1) st(1)] have "a = a2" "r1 = r2" by simp_all
    moreover from p 2 have "pre2 = pre" by simp
    ultimately show ?thesis using 2 by simp
  next
    case (3 pre2 a2 t2)
    with g2 b have "good a2"
      "render a @ CHR '')'' # r1 = render a2 @ CHR '' '' # t2 @ CHR '')'' # r2"
      by simp_all
    from IH [OF g(2) this st(1) st(2)] show ?thesis by simp
  next
    case (4 ks)
    with p have "pre = ''(or ''" by simp
    with g(1) show ?thesis by simp
  qed
qed

lemma binary_case:
  assumes IH: "\<And>k2 r1 r2. good a \<Longrightarrow> good k2 \<Longrightarrow> render a @ r1 = render k2 @ r2 \<Longrightarrow>
      stops r1 \<Longrightarrow> stops r2 \<Longrightarrow> a = k2 \<and> r1 = r2"
    and g1: "good (SBinary pre a t)" and g2: "good k2"
    and eq: "render (SBinary pre a t) @ r1 = render k2 @ r2"
  shows "SBinary pre a t = k2 \<and> r1 = r2"
proof -
  from g1 have g: "binary_pre pre" "good a" "CHR '')'' \<notin> set t" by simp_all
  from same_cls [OF g1 g2 eq] have c2: "cls k2 = 3" by simp
  from paren_eq [OF g1 _ g2 eq]
  have p: "ppre k2 = pre"
    and b: "render a @ CHR '' '' # t @ CHR '')'' # r1 = pbody k2 @ r2" by simp_all
  have st: "stops (CHR '')'' # r)" "stops (CHR '' '' # r)" for r
    by (simp_all add: stop_def)
  from g2 c2 show ?thesis
  proof (cases k2 rule: cls_paren)
    case (1 t2)
    with p have "pre = ''(q ''" by simp
    with g(1) show ?thesis by simp
  next
    case (2 pre2 a2)
    with g2 b have "good a2"
      "render a @ CHR '' '' # t @ CHR '')'' # r1 = render a2 @ CHR '')'' # r2"
      by simp_all
    from IH [OF g(2) this st(2) st(1)] show ?thesis by simp
  next
    case (3 pre2 a2 t2)
    with g2 b have g2': "good a2" "CHR '')'' \<notin> set t2"
      and e: "render a @ CHR '' '' # t @ CHR '')'' # r1 = render a2 @ CHR '' '' # t2 @ CHR '')'' # r2"
      by simp_all
    from IH [OF g(2) g2'(1) e st(2) st(2)] have aa: "a = a2"
      and e2: "t @ CHR '')'' # r1 = t2 @ CHR '')'' # r2"
      by simp_all
    from char_unique [OF g(3) g2'(2) e2] have "t = t2" "r1 = r2" by simp_all
    moreover from p 3 have "pre2 = pre" by simp
    ultimately show ?thesis using 3 aa by simp
  next
    case (4 ks)
    with p have "pre = ''(or ''" by simp
    with g(1) show ?thesis by simp
  qed
qed

lemma bracket_caret:
  assumes "good (SList ''['' '']'' ks1)" and "list_all good ks2"
    and eq: "Join (map render ks1) '' '' @ CHR '']'' # r1 =
             CHR ''^'' # Join (map render ks2) '' '' @ CHR '']'' # r2"
  shows False
proof (cases ks1)
  case Nil
  with eq show False by simp
next
  case (Cons k ks)
  with assms(1) have g: "good k" and n: "k \<noteq> SSym ''^''"
    by (simp_all add: no_caret_first_def)
  from render_head [OF g] obtain c cs where r: "render k = c # cs" by blast
  with eq Cons have "c = CHR ''^''" by (simp add: Join_Cons split: if_splits)
  with render_caret [OF g] r n show False by simp
qed

lemma list_case:
  assumes IH: "\<And>k k2 r1 r2. k \<in> set ks \<Longrightarrow> good k \<Longrightarrow> good k2 \<Longrightarrow>
      render k @ r1 = render k2 @ r2 \<Longrightarrow> stops r1 \<Longrightarrow> stops r2 \<Longrightarrow> k = k2 \<and> r1 = r2"
    and g1: "good (SList pre post ks)" and g2: "good k2"
    and eq: "render (SList pre post ks) @ r1 = render k2 @ r2"
  shows "SList pre post ks = k2 \<and> r1 = r2"
proof -
  from g1 have lp: "list_pre pre post" and gs: "list_all good ks" by simp_all
  note c = same_cls [OF g1 g2 eq]
  have st: "stop (CHR '')'')" "stop (CHR '']'')" "stop (CHR ''}'')"
    by (simp_all add: stop_def)
  have ju: "ks = ks2 \<and> r1 = r2"
    if "list_all good ks2" "stop c" "c \<noteq> CHR '' ''"
      "Join (map render ks) '' '' @ c # r1 = Join (map render ks2) '' '' @ c # r2"
    for ks2 c
  proof -
    have "ks = ks2 \<and> c # r1 = c # r2"
    proof (rule join_unique [OF _ gs that(1,4) that(2,3,2,3)])
      fix k k2 r1 r2
      assume "k \<in> set ks" "good k" "good k2" "render k @ r1 = render k2 @ r2"
        "stops r1" "stops r2"
      then show "k = k2 \<and> r1 = r2" by (rule IH)
    qed
    then show ?thesis by simp
  qed
  from lp show ?thesis
  proof (cases rule: list_pre_cases)
    case 4
    with c have c2: "cls k2 = 3" by simp
    from paren_eq [OF g1 _ g2 eq] 4
    have p: "ppre k2 = ''(or ''"
      and b: "Join (map render ks) '' '' @ CHR '')'' # r1 = pbody k2 @ r2" by simp_all
    from g2 c2 show ?thesis
    proof (cases k2 rule: cls_paren)
      case (1 t2)
      with p show ?thesis by simp
    next
      case (2 pre2 a2)
      with p have "pre2 = ''(or ''" by simp
      with g2 2 show ?thesis by simp
    next
      case (3 pre2 a2 t2)
      with p have "pre2 = ''(or ''" by simp
      with g2 3 show ?thesis by simp
    next
      case k2: (4 ks2)
      with g2 b have "list_all good ks2"
        "Join (map render ks) '' '' @ CHR '')'' # r1 = Join (map render ks2) '' '' @ CHR '')'' # r2"
        by simp_all
      from ju [OF this(1) st(1) _ this(2)] 4 k2 show ?thesis by simp
    qed
  next
    case 3
    with c have c2: "cls k2 = 5" by simp
    from g2 c2 show ?thesis
    proof (cases k2 rule: cls_brace)
      case k2: (1 ks2)
      with g2 eq 3 have "list_all good ks2"
        "Join (map render ks) '' '' @ CHR ''}'' # r1 = Join (map render ks2) '' '' @ CHR ''}'' # r2"
        by simp_all
      from ju [OF this(1) st(3) _ this(2)] 3 k2 show ?thesis by simp
    qed
  next
    case 1
    with c have c2: "cls k2 = 4" by simp
    from g2 c2 show ?thesis
    proof (cases k2 rule: cls_bracket)
      case k2: (1 ks2)
      with g2 eq 1 have "list_all good ks2"
        "Join (map render ks) '' '' @ CHR '']'' # r1 = Join (map render ks2) '' '' @ CHR '']'' # r2"
        by simp_all
      from ju [OF this(1) st(2) _ this(2)] 1 k2 show ?thesis by simp
    next
      case k2: (2 ks2)
      with g2 eq 1 have "list_all good ks2"
        "Join (map render ks) '' '' @ CHR '']'' # r1 =
           CHR ''^'' # Join (map render ks2) '' '' @ CHR '']'' # r2"
        by simp_all
      moreover from g1 1 have "good (SList ''['' '']'' ks)" by simp
      ultimately have False by (rule bracket_caret [rotated 1])
      then show ?thesis ..
    qed
  next
    case 2
    with c have c2: "cls k2 = 4" by simp
    from g2 c2 show ?thesis
    proof (cases k2 rule: cls_bracket)
      case k2: (1 ks2)
      with g2 eq 2 have
        "Join (map render ks2) '' '' @ CHR '']'' # r2 =
           CHR ''^'' # Join (map render ks) '' '' @ CHR '']'' # r1"
        by simp
      moreover from g2 k2 have "good (SList ''['' '']'' ks2)" by simp
      ultimately have False using gs by (rule bracket_caret [rotated 2])
      then show ?thesis ..
    next
      case k2: (2 ks2)
      with g2 eq 2 have "list_all good ks2"
        "Join (map render ks) '' '' @ CHR '']'' # r1 = Join (map render ks2) '' '' @ CHR '']'' # r2"
        by simp_all
      from ju [OF this(1) st(2) _ this(2)] 2 k2 show ?thesis by simp
    qed
  qed
qed

lemma render_unique:
  "good k1 \<Longrightarrow> good k2 \<Longrightarrow> render k1 @ r1 = render k2 @ r2 \<Longrightarrow> stops r1 \<Longrightarrow> stops r2 \<Longrightarrow>
   k1 = k2 \<and> r1 = r2"
proof (induction k1 arbitrary: k2 r1 r2)
  case (SText t)
  from leaf_case [OF _ SText.prems] show ?case by simp
next
  case (SBrace c)
  from leaf_case [OF _ SBrace.prems] show ?case by simp
next
  case (SSym s)
  from sym_case [OF SSym.prems(1,2,3)] show ?case .
next
  case (SQuote t)
  from quote_case [OF SQuote.prems(1,2,3)] show ?case .
next
  case (SRange a b)
  from range_case [OF SRange.prems] show ?case .
next
  case (SUnary pre a)
  show ?case
  proof (rule unary_case [OF _ SUnary.prems(1,2,3)])
    fix k2 r1 r2
    assume "good a" "good k2" "render a @ r1 = render k2 @ r2" "stops r1" "stops r2"
    then show "a = k2 \<and> r1 = r2" by (rule SUnary.IH)
  qed
next
  case (SBinary pre a t)
  show ?case
  proof (rule binary_case [OF _ SBinary.prems(1,2,3)])
    fix k2 r1 r2
    assume "good a" "good k2" "render a @ r1 = render k2 @ r2" "stops r1" "stops r2"
    then show "a = k2 \<and> r1 = r2" by (rule SBinary.IH)
  qed
next
  case (SList pre post ks)
  show ?case
  proof (rule list_case [OF _ SList.prems(1,2,3)])
    fix k k2 r1 r2
    assume "k \<in> set ks" "good k" "good k2" "render k @ r1 = render k2 @ r2" "stops r1" "stops r2"
    then show "k = k2 \<and> r1 = r2" by (rule SList.IH)
  qed
next
  case (SDefault d)
  from default_case [OF SDefault.prems(1,2,3)] show ?case .
qed


text \<open>
  C1, as amended. On readable trees the formatter is injective with respect to what it
  reads of a tree: two readable trees, over the same or different sources, that are
  rendered as the same string have the same skeleton, that is the same rendering rule at
  every rendered node (the verbatim leaf tags count as one), the same number of rendered
  arguments in the same order, and the same extracted text wherever text is embedded.
\<close>

theorem format_injective_on_readable:
  assumes "readable re1 e1" and "readable re2 e2"
    and "formatExprSyntax re1 e1 = formatExprSyntax re2 e2"
  shows "skeleton re1 e1 = skeleton re2 e2"
proof -
  from assms(1) obtain k1 where k1: "skeleton re1 e1 = Some k1" "good k1"
    by (auto simp: readable_def split: option.splits)
  from assms(2) obtain k2 where k2: "skeleton re2 e2 = Some k2" "good k2"
    by (auto simp: readable_def split: option.splits)
  from skel_render(1) [OF k1(1)] skel_render(1) [OF k2(1)] assms(3)
  have "render k1 @ [] = render k2 @ []" by simp
  from render_unique [OF k1(2) k2(2) this] k1(1) k2(1) show ?thesis
    by (simp add: stops_def)
qed

theorem format_injective_on_readable_witness:
  "readable \<lparr>Source = ''a|bc'', Expr = MkExpr \<lparr>Begin = 0, End = 4\<rparr> OpAlt
        [MkExpr \<lparr>Begin = 0, End = 1\<rparr> OpLiteral [], MkExpr \<lparr>Begin = 2, End = 4\<rparr> OpLiteral []]\<rparr>
     (MkExpr \<lparr>Begin = 0, End = 4\<rparr> OpAlt
        [MkExpr \<lparr>Begin = 0, End = 1\<rparr> OpLiteral [], MkExpr \<lparr>Begin = 2, End = 4\<rparr> OpLiteral []])
   \<and> readable \<lparr>Source = ''bc,a'', Expr = MkExpr \<lparr>Begin = 0, End = 4\<rparr> OpAlt
        [MkExpr \<lparr>Begin = 3, End = 4\<rparr> OpChar [], MkExpr \<lparr>Begin = 0, End = 2\<rparr> OpString []]\<rparr>
     (MkExpr \<lparr>Begin = 0, End = 4\<rparr> OpAlt
        [MkExpr \<lparr>Begin = 3, End = 4\<rparr> OpChar [], MkExpr \<lparr>Begin = 0, End = 2\<rparr> OpString []])
   \<and> formatExprSyntax \<lparr>Source = ''a|bc'', Expr = MkExpr \<lparr>Begin = 0, End = 4\<rparr> OpAlt
        [MkExpr \<lparr>Begin = 0, End = 1\<rparr> OpLiteral [], MkExpr \<lparr>Begin = 2, End = 4\<rparr> OpLiteral []]\<rparr>
     (MkExpr \<lparr>Begin = 0, End = 4\<rparr> OpAlt
        [MkExpr \<lparr>Begin = 0, End = 1\<rparr> OpLiteral [], MkExpr \<lparr>Begin = 2, End = 4\<rparr> OpLiteral []])
     = formatExprSyntax \<lparr>Source = ''bc,a'', Expr = MkExpr \<lparr>Begin = 0, End = 4\<rparr> OpAlt
        [MkExpr \<lparr>Begin = 3, End = 4\<rparr> OpChar [], MkExpr \<lparr>Begin = 0, End = 2\<rparr> OpString []]\<rparr>
     (MkExpr \<lparr>Begin = 0, End = 4\<rparr> OpAlt
        [MkExpr \<lparr>Begin = 3, End = 4\<rparr> OpChar [], MkExpr \<lparr>Begin = 0, End = 2\<rparr> OpString []])
   \<and> skeleton \<lparr>Source = ''a|bc'', Expr = MkExpr \<lparr>Begin = 0, End = 4\<rparr> OpAlt
        [MkExpr \<lparr>Begin = 0, End = 1\<rparr> OpLiteral [], MkExpr \<lparr>Begin = 2, End = 4\<rparr> OpLiteral []]\<rparr>
     (MkExpr \<lparr>Begin = 0, End = 4\<rparr> OpAlt
        [MkExpr \<lparr>Begin = 0, End = 1\<rparr> OpLiteral [], MkExpr \<lparr>Begin = 2, End = 4\<rparr> OpLiteral []])
     = skeleton \<lparr>Source = ''bc,a'', Expr = MkExpr \<lparr>Begin = 0, End = 4\<rparr> OpAlt
        [MkExpr \<lparr>Begin = 3, End = 4\<rparr> OpChar [], MkExpr \<lparr>Begin = 0, End = 2\<rparr> OpString []]\<rparr>
     (MkExpr \<lparr>Begin = 0, End = 4\<rparr> OpAlt
        [MkExpr \<lparr>Begin = 3, End = 4\<rparr> OpChar [], MkExpr \<lparr>Begin = 0, End = 2\<rparr> OpString []])"
  using format_injective_on_readable
    [of "\<lparr>Source = ''a|bc'', Expr = MkExpr \<lparr>Begin = 0, End = 4\<rparr> OpAlt
        [MkExpr \<lparr>Begin = 0, End = 1\<rparr> OpLiteral [], MkExpr \<lparr>Begin = 2, End = 4\<rparr> OpLiteral []]\<rparr>"
      "MkExpr \<lparr>Begin = 0, End = 4\<rparr> OpAlt
        [MkExpr \<lparr>Begin = 0, End = 1\<rparr> OpLiteral [], MkExpr \<lparr>Begin = 2, End = 4\<rparr> OpLiteral []]"
      "\<lparr>Source = ''bc,a'', Expr = MkExpr \<lparr>Begin = 0, End = 4\<rparr> OpAlt
        [MkExpr \<lparr>Begin = 3, End = 4\<rparr> OpChar [], MkExpr \<lparr>Begin = 0, End = 2\<rparr> OpString []]\<rparr>"
      "MkExpr \<lparr>Begin = 0, End = 4\<rparr> OpAlt
        [MkExpr \<lparr>Begin = 3, End = 4\<rparr> OpChar [], MkExpr \<lparr>Begin = 0, End = 2\<rparr> OpString []]"]
  by (simp add: readable_def skeleton.simps(1) rule_of_def verbatimOps_def Op_defs
      ExprString_def slice_def ExprBegin_def ExprEnd_def token_def inner_def stop_def
      list_pre_def no_caret_first_def fmt_Alt [unfolded Op_defs]
      fmt_CharLiteral [unfolded Op_defs] fmt_verbatim formatArgsSyntax.simps)

text \<open>
  C1 as stated fails. Two \<^verbatim>\<open>Literal\<close> leaves, one spanning the single character
  \<^verbatim>\<open>{\<close> and one spanning the three characters quote, brace, quote, differ in their
  leaf text only and are both rendered as quote, brace, quote; a \<^verbatim>\<open>Char\<close> and a
  \<^verbatim>\<open>Literal\<close> spanning the same \<^verbatim>\<open>a\<close> differ in their tag and are both rendered as
  \<^verbatim>\<open>a\<close>. All four trees have their spans in range and the arguments their tags need.
\<close>

theorem format_not_injective:
  "spans_ok \<lparr>Source = ''{'', Expr = MkExpr \<lparr>Begin = 0, End = 1\<rparr> OpLiteral []\<rparr>
     (MkExpr \<lparr>Begin = 0, End = 1\<rparr> OpLiteral [])
   \<and> arity_ok (MkExpr \<lparr>Begin = 0, End = 1\<rparr> OpLiteral [])
   \<and> spans_ok \<lparr>Source = [CHR 0x27, CHR ''{'', CHR 0x27],
                 Expr = MkExpr \<lparr>Begin = 0, End = 3\<rparr> OpLiteral []\<rparr>
     (MkExpr \<lparr>Begin = 0, End = 3\<rparr> OpLiteral [])
   \<and> arity_ok (MkExpr \<lparr>Begin = 0, End = 3\<rparr> OpLiteral [])
   \<and> span_text \<lparr>Source = ''{'', Expr = MkExpr \<lparr>Begin = 0, End = 1\<rparr> OpLiteral []\<rparr>
         (MkExpr \<lparr>Begin = 0, End = 1\<rparr> OpLiteral [])
       \<noteq> span_text \<lparr>Source = [CHR 0x27, CHR ''{'', CHR 0x27],
                 Expr = MkExpr \<lparr>Begin = 0, End = 3\<rparr> OpLiteral []\<rparr>
         (MkExpr \<lparr>Begin = 0, End = 3\<rparr> OpLiteral [])
   \<and> FormatSyntax \<lparr>Source = ''{'', Expr = MkExpr \<lparr>Begin = 0, End = 1\<rparr> OpLiteral []\<rparr>
       = FormatSyntax \<lparr>Source = [CHR 0x27, CHR ''{'', CHR 0x27],
                 Expr = MkExpr \<lparr>Begin = 0, End = 3\<rparr> OpLiteral []\<rparr>
   \<and> spans_ok \<lparr>Source = ''a'', Expr = MkExpr \<lparr>Begin = 0, End = 1\<rparr> OpChar []\<rparr>
     (MkExpr \<lparr>Begin = 0, End = 1\<rparr> OpChar [])
   \<and> arity_ok (MkExpr \<lparr>Begin = 0, End = 1\<rparr> OpChar [])
   \<and> spans_ok \<lparr>Source = ''a'', Expr = MkExpr \<lparr>Begin = 0, End = 1\<rparr> OpLiteral []\<rparr>
     (MkExpr \<lparr>Begin = 0, End = 1\<rparr> OpLiteral [])
   \<and> Op (MkExpr \<lparr>Begin = 0, End = 1\<rparr> OpChar []) \<noteq> Op (MkExpr \<lparr>Begin = 0, End = 1\<rparr> OpLiteral [])
   \<and> FormatSyntax \<lparr>Source = ''a'', Expr = MkExpr \<lparr>Begin = 0, End = 1\<rparr> OpChar []\<rparr>
       = FormatSyntax \<lparr>Source = ''a'', Expr = MkExpr \<lparr>Begin = 0, End = 1\<rparr> OpLiteral []\<rparr>"
  by (simp add: span_ok_def span_text_def ExprBegin_def ExprEnd_def min_arity_def
      FormatSyntax_def fmt_CharLiteral [unfolded Op_defs] ExprString_def slice_def Op_defs)

end
